theory Spec2Isabelle
  imports Main "HOL-Library.Word"
begin

unbundle bit_operations_syntax

section \<open>Bytes, machine integers and failures\<close>

type_synonym byte = "8 word"
type_synonym uint16 = "16 word"
type_synonym uint64 = "64 word"

text \<open>
  A \<open>BNode\<close> is Go's \<open>[]byte\<close>. The capacity of a slice is taken to be its length, so
  a slice expression that reaches past the length is a runtime panic here.
\<close>

type_synonym BNode = "byte list"

text \<open>
  Every way in which a Go call does not return a value:
  \<^item> \<open>AssertFailed\<close>: \<open>utils.Assert\<close> was called with a false condition;
  \<^item> \<open>RuntimePanic\<close>: a slice or index expression out of range, or \<open>panic("bad node!")\<close>;
  \<^item> \<open>OutOfFuel\<close>: the recursion or loop did not end within the given number of steps.
\<close>

datatype error = AssertFailed | RuntimePanic | OutOfFuel

definition rbind :: "error + 'a \<Rightarrow> ('a \<Rightarrow> error + 'b) \<Rightarrow> error + 'b" where
  "rbind m f = (case m of Inl e \<Rightarrow> Inl e | Inr x \<Rightarrow> f x)"

text \<open>
  Modelled from the spec: \<open>utils.Assert\<close> is called throughout \<open>btree.go\<close> but is not
  defined in \<open>utils.go\<close>. The spec (section 7) calls a failed assertion a contract violation
  that terminates the operation immediately (a fatal assertion).
\<close>

definition Assert :: "bool \<Rightarrow> error + unit" where
  "Assert c = (if c then Inr () else Inl AssertFailed)"

definition HEADER :: uint16 where "HEADER = 4"
definition BTREE_PAGE_SIZE :: nat where "BTREE_PAGE_SIZE = 4096"
definition BTREE_MAX_KEY_SIZE :: nat where "BTREE_MAX_KEY_SIZE = 1000"
definition BTREE_MAX_VALUE_SIZE :: nat where "BTREE_MAX_VALUE_SIZE = 3000"
definition BNODE_NODE :: uint16 where "BNODE_NODE = 1"
definition BNODE_LEAF :: uint16 where "BNODE_LEAF = 2"

subsection \<open>\<open>encoding/binary\<close>, little endian, and \<open>copy\<close>\<close>

text \<open>\<open>binary.LittleEndian.Uint16(b[pos:])\<close>\<close>

definition Uint16 :: "byte list \<Rightarrow> nat \<Rightarrow> error + uint16" where
  "Uint16 b pos =
     (if pos + 2 \<le> length b
      then Inr (ucast (b ! pos) OR push_bit 8 (ucast (b ! (pos + 1))))
      else Inl RuntimePanic)"

text \<open>\<open>binary.LittleEndian.PutUint16(b[pos:], v)\<close>\<close>

definition PutUint16 :: "byte list \<Rightarrow> nat \<Rightarrow> uint16 \<Rightarrow> error + byte list" where
  "PutUint16 b pos v =
     (if pos + 2 \<le> length b
      then Inr (b[pos := ucast v, pos + 1 := ucast (drop_bit 8 v)])
      else Inl RuntimePanic)"

text \<open>\<open>binary.LittleEndian.Uint64(b[pos:])\<close>\<close>

definition Uint64 :: "byte list \<Rightarrow> nat \<Rightarrow> error + uint64" where
  "Uint64 b pos =
     (if pos + 8 \<le> length b
      then Inr (ucast (b ! pos) OR push_bit 8 (ucast (b ! (pos + 1)))
             OR push_bit 16 (ucast (b ! (pos + 2))) OR push_bit 24 (ucast (b ! (pos + 3)))
             OR push_bit 32 (ucast (b ! (pos + 4))) OR push_bit 40 (ucast (b ! (pos + 5)))
             OR push_bit 48 (ucast (b ! (pos + 6))) OR push_bit 56 (ucast (b ! (pos + 7))))
      else Inl RuntimePanic)"

text \<open>\<open>binary.LittleEndian.PutUint64(b[pos:], v)\<close>\<close>

definition PutUint64 :: "byte list \<Rightarrow> nat \<Rightarrow> uint64 \<Rightarrow> error + byte list" where
  "PutUint64 b pos v =
     (if pos + 8 \<le> length b
      then Inr (b[pos := ucast v, pos + 1 := ucast (drop_bit 8 v),
                  pos + 2 := ucast (drop_bit 16 v), pos + 3 := ucast (drop_bit 24 v),
                  pos + 4 := ucast (drop_bit 32 v), pos + 5 := ucast (drop_bit 40 v),
                  pos + 6 := ucast (drop_bit 48 v), pos + 7 := ucast (drop_bit 56 v)])
      else Inl RuntimePanic)"

text \<open>
  \<open>copy(dst[pos:], src)\<close>: copies \<open>min (len dst - pos) (len src)\<close> bytes and panics only
  when \<open>pos\<close> is past the end of \<open>dst\<close>.
\<close>

definition copy_at :: "byte list \<Rightarrow> nat \<Rightarrow> byte list \<Rightarrow> error + byte list" where
  "copy_at dst pos src =
     (if pos \<le> length dst
      then Inr (take pos dst @ take (length dst - pos) src @ drop (pos + length src) dst)
      else Inl RuntimePanic)"

text \<open>\<open>b[lo:hi]\<close>\<close>

definition slice :: "byte list \<Rightarrow> nat \<Rightarrow> nat \<Rightarrow> error + byte list" where
  "slice b lo hi =
     (if lo \<le> hi \<and> hi \<le> length b then Inr (take (hi - lo) (drop lo b)) else Inl RuntimePanic)"

text \<open>\<open>bytes.Compare\<close>: lexicographic order on unsigned bytes, as \<open>-1\<close>, \<open>0\<close> or \<open>1\<close>.\<close>

fun bytes_Compare :: "byte list \<Rightarrow> byte list \<Rightarrow> int" where
  "bytes_Compare [] [] = 0"
| "bytes_Compare [] (y # ys) = - 1"
| "bytes_Compare (x # xs) [] = 1"
| "bytes_Compare (x # xs) (y # ys) =
     (if x < y then - 1 else if y < x then 1 else bytes_Compare xs ys)"

section \<open>The page codec\<close>

definition btype :: "BNode \<Rightarrow> error + uint16" where
  "btype node = Uint16 node 0"

definition nkeys :: "BNode \<Rightarrow> error + uint16" where
  "nkeys node = Uint16 node 2"

definition setHeader :: "BNode \<Rightarrow> uint16 \<Rightarrow> uint16 \<Rightarrow> error + BNode" where
  "setHeader node bt nk = rbind (PutUint16 node 0 bt) (\<lambda>node. PutUint16 node 2 nk)"

definition getPtr :: "BNode \<Rightarrow> uint16 \<Rightarrow> error + uint64" where
  "getPtr node idx =
     rbind (nkeys node) (\<lambda>nk.
     rbind (Assert (idx < nk)) (\<lambda>_.
     Uint64 node (unat (HEADER + 8 * idx))))"

definition setPtr :: "BNode \<Rightarrow> uint16 \<Rightarrow> uint64 \<Rightarrow> error + BNode" where
  "setPtr node idx val =
     rbind (nkeys node) (\<lambda>nk.
     rbind (Assert (idx < nk)) (\<lambda>_.
     PutUint64 node (unat (HEADER + 8 * idx)) val))"

definition offsetPos :: "BNode \<Rightarrow> uint16 \<Rightarrow> error + uint16" where
  "offsetPos node idx =
     rbind (nkeys node) (\<lambda>nk.
     rbind (Assert (1 \<le> idx \<and> idx \<le> nk)) (\<lambda>_.
     rbind (nkeys node) (\<lambda>nk.
     Inr (HEADER + 8 * nk + 2 * (idx - 1)))))"

definition getOffset :: "BNode \<Rightarrow> uint16 \<Rightarrow> error + uint16" where
  "getOffset node idx =
     (if idx = 0 then Inr 0
      else rbind (offsetPos node idx) (\<lambda>pos. Uint16 node (unat pos)))"

definition setOffset :: "BNode \<Rightarrow> uint16 \<Rightarrow> uint16 \<Rightarrow> error + BNode" where
  "setOffset node idx offset =
     (if idx = 0 then Inr node
      else rbind (offsetPos node idx) (\<lambda>pos. PutUint16 node (unat pos) offset))"

definition kvPos :: "BNode \<Rightarrow> uint16 \<Rightarrow> error + uint16" where
  "kvPos node idx =
     rbind (nkeys node) (\<lambda>nk.
     rbind (Assert (idx \<le> nk)) (\<lambda>_.
     rbind (nkeys node) (\<lambda>nk1.
     rbind (nkeys node) (\<lambda>nk2.
     rbind (getOffset node idx) (\<lambda>off.
     Inr (HEADER + 8 * nk1 + 2 * nk2 + off))))))"

definition getKey :: "BNode \<Rightarrow> uint16 \<Rightarrow> error + byte list" where
  "getKey node idx =
     rbind (nkeys node) (\<lambda>nk.
     rbind (Assert (idx < nk)) (\<lambda>_.
     rbind (kvPos node idx) (\<lambda>pos.
     rbind (Uint16 node (unat pos)) (\<lambda>klen.
     slice node (unat (pos + 4)) (unat (pos + 4) + unat klen)))))"

definition getVal :: "BNode \<Rightarrow> uint16 \<Rightarrow> error + byte list" where
  "getVal node idx =
     rbind (nkeys node) (\<lambda>nk.
     rbind (Assert (idx < nk)) (\<lambda>_.
     rbind (kvPos node idx) (\<lambda>pos.
     rbind (Uint16 node (unat pos)) (\<lambda>klen.
     rbind (Uint16 node (unat (pos + 2))) (\<lambda>vlen.
     slice node (unat (pos + 4 + klen)) (unat (pos + 4 + klen) + unat vlen))))))"

definition nbytes :: "BNode \<Rightarrow> error + uint16" where
  "nbytes node = rbind (nkeys node) (\<lambda>nk. kvPos node nk)"

section \<open>Lookup\<close>

text \<open>
  The loop of \<open>nodeLookupLE\<close>. All of \<open>left\<close>, \<open>right\<close> and \<open>mid\<close> are \<open>uint16\<close>, so
  \<open>left + right\<close>, \<open>mid + 1\<close> and \<open>mid - 1\<close> wrap around, and on a node with more than
  \<open>2^15\<close> keys the loop need not end: it runs on fuel.
\<close>

fun lookupLoop :: "nat \<Rightarrow> BNode \<Rightarrow> byte list \<Rightarrow> uint16 \<Rightarrow> uint16 \<Rightarrow> uint16 \<Rightarrow> error + uint16" where
  "lookupLoop 0 node key left right found =
     (if left \<le> right then Inl OutOfFuel else Inr found)"
| "lookupLoop (Suc fuel) node key left right found =
     (if left \<le> right
      then rbind (getKey node ((left + right) div 2)) (\<lambda>k.
             if bytes_Compare k key \<le> 0
             then lookupLoop fuel node key ((left + right) div 2 + 1) right ((left + right) div 2)
             else lookupLoop fuel node key left ((left + right) div 2 - 1) found)
      else Inr found)"

definition nodeLookupLE :: "nat \<Rightarrow> BNode \<Rightarrow> byte list \<Rightarrow> error + uint16" where
  "nodeLookupLE fuel node key =
     rbind (nkeys node) (\<lambda>nk. lookupLoop fuel node key 1 (nk - 1) 0)"

section \<open>Building nodes\<close>

text \<open>
  The Go functions write into the buffer \<open>new\<close> they are given; here they return it.
  The pointer loop of \<open>nodeAppendRange\<close>, \<open>for i := uint16(0); i < n; i++\<close>, with the
  number of iterations still allowed as first argument.
\<close>

fun copyPtrs :: "nat \<Rightarrow> BNode \<Rightarrow> BNode \<Rightarrow> uint16 \<Rightarrow> uint16 \<Rightarrow> uint16 \<Rightarrow> uint16 \<Rightarrow> error + BNode" where
  "copyPtrs 0 new old dstNew srcOld n i = (if i < n then Inl OutOfFuel else Inr new)"
| "copyPtrs (Suc c) new old dstNew srcOld n i =
     (if i < n
      then rbind (getPtr old (srcOld + i)) (\<lambda>p.
           rbind (setPtr new (dstNew + i) p) (\<lambda>new.
           copyPtrs c new old dstNew srcOld n (i + 1)))
      else Inr new)"

text \<open>
  The offset loop, \<open>for i := uint16(1); i <= n; i++\<close>. For \<open>n = 65535\<close> the condition
  never fails in Go (\<open>i\<close> wraps to 0); the count runs out instead.
\<close>

fun copyOffsets :: "nat \<Rightarrow> BNode \<Rightarrow> BNode \<Rightarrow> uint16 \<Rightarrow> uint16 \<Rightarrow> uint16 \<Rightarrow> uint16 \<Rightarrow> uint16 \<Rightarrow> uint16 \<Rightarrow> error + BNode" where
  "copyOffsets 0 new old dstNew srcOld n dstBegin srcBegin i =
     (if i \<le> n then Inl OutOfFuel else Inr new)"
| "copyOffsets (Suc c) new old dstNew srcOld n dstBegin srcBegin i =
     (if i \<le> n
      then rbind (getOffset old (srcOld + i)) (\<lambda>off.
           rbind (setOffset new (dstNew + i) (dstBegin + off - srcBegin)) (\<lambda>new.
           copyOffsets c new old dstNew srcOld n dstBegin srcBegin (i + 1)))
      else Inr new)"

definition nodeAppendRange :: "BNode \<Rightarrow> BNode \<Rightarrow> uint16 \<Rightarrow> uint16 \<Rightarrow> uint16 \<Rightarrow> error + BNode" where
  "nodeAppendRange new old dstNew srcOld n =
     rbind (nkeys old) (\<lambda>onk.
     rbind (Assert (srcOld + n \<le> onk)) (\<lambda>_.
     rbind (nkeys new) (\<lambda>nnk.
     rbind (Assert (dstNew + n \<le> nnk)) (\<lambda>_.
     if n = 0 then Inr new
     else
       rbind (copyPtrs (unat n) new old dstNew srcOld n 0) (\<lambda>new.
       rbind (getOffset new dstNew) (\<lambda>dstBegin.
       rbind (getOffset old srcOld) (\<lambda>srcBegin.
       rbind (copyOffsets (unat n) new old dstNew srcOld n dstBegin srcBegin 1) (\<lambda>new.
       rbind (kvPos old srcOld) (\<lambda>begin.
       rbind (kvPos old (srcOld + n)) (\<lambda>end.
       rbind (kvPos new dstNew) (\<lambda>pos.
       rbind (slice old (unat begin) (unat end)) (\<lambda>src.
       copy_at new (unat pos) src))))))))))))"

definition nodeAppendKV :: "BNode \<Rightarrow> uint16 \<Rightarrow> uint64 \<Rightarrow> byte list \<Rightarrow> byte list \<Rightarrow> error + BNode" where
  "nodeAppendKV new idx ptr key val =
     rbind (setPtr new idx ptr) (\<lambda>new.
     rbind (kvPos new idx) (\<lambda>pos.
     rbind (PutUint16 new (unat (pos + 0)) (of_nat (length key))) (\<lambda>new.
     rbind (PutUint16 new (unat (pos + 2)) (of_nat (length val))) (\<lambda>new.
     rbind (copy_at new (unat (pos + 4)) key) (\<lambda>new.
     rbind (copy_at new (unat (pos + 4 + of_nat (length key))) val) (\<lambda>new.
     rbind (getOffset new idx) (\<lambda>off.
     setOffset new (idx + 1) (off + 4 + of_nat (length key + length val)))))))))"

definition leafInsert :: "BNode \<Rightarrow> BNode \<Rightarrow> uint16 \<Rightarrow> byte list \<Rightarrow> byte list \<Rightarrow> error + BNode" where
  "leafInsert new old idx key val =
     rbind (nkeys old) (\<lambda>onk.
     rbind (setHeader new BNODE_LEAF (onk + 1)) (\<lambda>new.
     rbind (nodeAppendRange new old 0 0 idx) (\<lambda>new.
     rbind (nodeAppendKV new idx 0 key val) (\<lambda>new.
     rbind (nkeys old) (\<lambda>onk.
     nodeAppendRange new old (idx + 1) idx (onk - idx))))))"

definition leafUpdate :: "BNode \<Rightarrow> BNode \<Rightarrow> uint16 \<Rightarrow> byte list \<Rightarrow> byte list \<Rightarrow> error + BNode" where
  "leafUpdate new old idx key val =
     rbind (nkeys old) (\<lambda>onk.
     rbind (setHeader new BNODE_LEAF onk) (\<lambda>new.
     rbind (nodeAppendRange new old 0 0 (idx - 1)) (\<lambda>new.
     rbind (nodeAppendKV new idx 0 key val) (\<lambda>new.
     rbind (nkeys old) (\<lambda>onk.
     nodeAppendRange new old idx idx (onk - idx))))))"

definition leafDelete :: "BNode \<Rightarrow> BNode \<Rightarrow> uint16 \<Rightarrow> error + BNode" where
  "leafDelete new old idx =
     rbind (nkeys old) (\<lambda>onk.
     rbind (setHeader new BNODE_LEAF (onk - 1)) (\<lambda>new.
     rbind (nodeAppendRange new old 0 0 idx) (\<lambda>new.
     rbind (nkeys old) (\<lambda>onk.
     nodeAppendRange new old idx (idx + 1) (onk - idx - 1)))))"

definition nodeMerge :: "BNode \<Rightarrow> BNode \<Rightarrow> BNode \<Rightarrow> error + BNode" where
  "nodeMerge new left right =
     rbind (nkeys left) (\<lambda>lnk.
     rbind (nkeys right) (\<lambda>rnk.
     rbind (setHeader new BNODE_NODE (lnk + rnk)) (\<lambda>new.
     rbind (nkeys left) (\<lambda>lnk.
     rbind (nodeAppendRange new left 0 0 lnk) (\<lambda>new.
     rbind (nkeys left) (\<lambda>lnk.
     rbind (nkeys right) (\<lambda>rnk.
     nodeAppendRange new right lnk 0 rnk)))))))"

definition nodeReplace2Kid :: "BNode \<Rightarrow> BNode \<Rightarrow> uint16 \<Rightarrow> uint64 \<Rightarrow> byte list \<Rightarrow> error + BNode" where
  "nodeReplace2Kid new old idx ptr key =
     rbind (nkeys old) (\<lambda>onk.
     rbind (setHeader new BNODE_NODE (onk - 1)) (\<lambda>new.
     rbind (nodeAppendRange new old 0 0 idx) (\<lambda>new.
     rbind (nodeAppendKV new idx ptr key []) (\<lambda>new.
     rbind (nkeys old) (\<lambda>onk.
     nodeAppendRange new old (idx + 1) (idx + 2) (onk - idx - 1))))))"

section \<open>Splitting\<close>

definition nodeSplit2 :: "BNode \<Rightarrow> BNode \<Rightarrow> BNode \<Rightarrow> error + (BNode \<times> BNode)" where
  "nodeSplit2 left right old =
     rbind (nbytes old) (\<lambda>nb.
     rbind (Assert (unat nb > BTREE_PAGE_SIZE)) (\<lambda>_.
     rbind (nkeys old) (\<lambda>nKey.
     let rightNKey = nKey div 2; leftNKey = nKey - rightNKey in
     rbind (btype old) (\<lambda>bt.
     rbind (setHeader left bt leftNKey) (\<lambda>left.
     rbind (btype old) (\<lambda>bt.
     rbind (setHeader right bt rightNKey) (\<lambda>right.
     rbind (nodeAppendRange left old 0 0 leftNKey) (\<lambda>left.
     rbind (nodeAppendRange right old 0 leftNKey rightNKey) (\<lambda>right.
     Inr (left, right))))))))))"

text \<open>
  The result is Go's \<open>(uint16, [3]BNode)\<close>: the array always has three elements, the unused
  ones \<open>nil\<close>. \<open>old[:BTREE_PAGE_SIZE]\<close> panics on a buffer shorter than a page.
\<close>

definition nodeSplit3 :: "BNode \<Rightarrow> error + (uint16 \<times> BNode list)" where
  "nodeSplit3 old =
     rbind (nbytes old) (\<lambda>nb.
     if unat nb \<le> BTREE_PAGE_SIZE
     then rbind (slice old 0 BTREE_PAGE_SIZE) (\<lambda>old. Inr (1, [old, [], []]))
     else
       rbind (nodeSplit2 (replicate (2 * BTREE_PAGE_SIZE) 0) (replicate BTREE_PAGE_SIZE 0) old)
         (\<lambda>(left, right).
       rbind (nbytes left) (\<lambda>lnb.
       if unat lnb \<le> BTREE_PAGE_SIZE
       then rbind (slice left 0 BTREE_PAGE_SIZE) (\<lambda>left. Inr (2, [left, right, []]))
       else
         rbind (nodeSplit2 (replicate BTREE_PAGE_SIZE 0) (replicate BTREE_PAGE_SIZE 0) left)
           (\<lambda>(leftleft, middle).
         rbind (nbytes leftleft) (\<lambda>llnb.
         rbind (Assert (unat llnb \<le> BTREE_PAGE_SIZE)) (\<lambda>_.
         Inr (3, [leftleft, middle, right])))))))"

section \<open>The page store\<close>

text \<open>
  The tree with the in-memory page store of the test harness (\<open>NewC\<close>): \<open>pages\<close> is its
  table of live pages, and \<open>Get\<close>, \<open>New\<close> and \<open>Del\<close> are its three callbacks with their
  assertions.
\<close>

text \<open>
  Modelled from the spec: the pointer that \<open>New\<close> gives a page. The harness takes the memory
  address of the buffer, which has no counterpart here. The spec has "an opaque 64-bit
  pointer assigned by the page store at allocation time", nonzero, and asks for "an explicit
  incrementing counter"; \<open>next_ptr\<close> is that counter.
\<close>

record BTree =
  root :: uint64
  pages :: "uint64 \<rightharpoonup> BNode"
  next_ptr :: uint64

definition tree_Get :: "BTree \<Rightarrow> uint64 \<Rightarrow> error + BNode" where
  "tree_Get tree ptr =
     (case pages tree ptr of None \<Rightarrow> Inl AssertFailed | Some node \<Rightarrow> Inr node)"

definition tree_New :: "BTree \<Rightarrow> BNode \<Rightarrow> error + (uint64 \<times> BTree)" where
  "tree_New tree node =
     rbind (nbytes node) (\<lambda>nb.
     rbind (Assert (unat nb \<le> BTREE_PAGE_SIZE)) (\<lambda>_.
     if node = [] then Inl RuntimePanic
     else
       rbind (Assert (pages tree (next_ptr tree) = None)) (\<lambda>_.
       Inr (next_ptr tree,
            tree\<lparr>pages := (pages tree)(next_ptr tree \<mapsto> node),
                 next_ptr := next_ptr tree + 1\<rparr>))))"

definition tree_Del :: "BTree \<Rightarrow> uint64 \<Rightarrow> error + BTree" where
  "tree_Del tree ptr =
     rbind (Assert (pages tree ptr \<noteq> None)) (\<lambda>_.
     Inr (tree\<lparr>pages := (pages tree)(ptr := None)\<rparr>))"

section \<open>Read\<close>

text \<open>
  The recursion follows pointers through the page store, so it runs on fuel: \<open>fuel\<close> bounds
  the levels still to descend, and each level hands its own fuel to the binary search.
  \<open>treeInsert\<close> and \<open>treeDelete\<close> below do the same.
\<close>

fun treeRead :: "nat \<Rightarrow> BTree \<Rightarrow> BNode \<Rightarrow> byte list \<Rightarrow> error + (byte list \<times> bool)" where
  "treeRead 0 tree node key = Inl OutOfFuel"
| "treeRead (Suc fuel) tree node key =
     rbind (nodeLookupLE (Suc fuel) node key) (\<lambda>idx.
     rbind (btype node) (\<lambda>bt.
     if bt = BNODE_LEAF
     then rbind (getKey node idx) (\<lambda>k.
            if key = k then rbind (getVal node idx) (\<lambda>v. Inr (v, True))
            else Inr ([], False))
     else if bt = BNODE_NODE
     then rbind (getPtr node idx) (\<lambda>ptr.
          rbind (tree_Get tree ptr) (\<lambda>kid.
          treeRead fuel tree kid key))
     else Inl RuntimePanic))"

definition Read :: "nat \<Rightarrow> BTree \<Rightarrow> byte list \<Rightarrow> error + (byte list \<times> bool)" where
  "Read fuel tree key =
     (if root tree = 0 then Inr ([], False)
      else rbind (tree_Get tree (root tree)) (\<lambda>node. treeRead fuel tree node key))"

section \<open>Insert\<close>

text \<open>
  The loop \<open>for i, node := range kids\<close> of \<open>nodeReplaceKidN\<close>, and with \<open>idx = 0\<close> the one
  of \<open>Insert\<close>: allocate the kid, then append a link to it under its first key.
\<close>

fun appendKids :: "BTree \<Rightarrow> BNode \<Rightarrow> uint16 \<Rightarrow> nat \<Rightarrow> BNode list \<Rightarrow> error + (BNode \<times> BTree)" where
  "appendKids tree new idx i [] = Inr (new, tree)"
| "appendKids tree new idx i (node # kids) =
     rbind (tree_New tree node) (\<lambda>(ptr, tree).
     rbind (getKey node 0) (\<lambda>key.
     rbind (nodeAppendKV new (idx + of_nat i) ptr key []) (\<lambda>new.
     appendKids tree new idx (i + 1) kids)))"

definition nodeReplaceKidN :: "BTree \<Rightarrow> BNode \<Rightarrow> BNode \<Rightarrow> uint16 \<Rightarrow> BNode list \<Rightarrow> error + (BNode \<times> BTree)" where
  "nodeReplaceKidN tree new old idx kids =
     (let inc = (of_nat (length kids) :: uint16) in
      rbind (nkeys old) (\<lambda>onk.
      rbind (setHeader new BNODE_NODE (onk + inc - 1)) (\<lambda>new.
      rbind (nodeAppendRange new old 0 0 idx) (\<lambda>new.
      rbind (appendKids tree new idx 0 kids) (\<lambda>(new, tree).
      rbind (nkeys old) (\<lambda>onk.
      rbind (nodeAppendRange new old (idx + inc) (idx + 1) (onk - (idx + 1))) (\<lambda>new.
      Inr (new, tree))))))))"

fun treeInsert :: "nat \<Rightarrow> BTree \<Rightarrow> BNode \<Rightarrow> byte list \<Rightarrow> byte list \<Rightarrow> error + (BNode \<times> BTree)"
and nodeInsert :: "nat \<Rightarrow> BTree \<Rightarrow> BNode \<Rightarrow> BNode \<Rightarrow> uint16 \<Rightarrow> byte list \<Rightarrow> byte list \<Rightarrow> error + (BNode \<times> BTree)"
where
  "treeInsert 0 tree node key val = Inl OutOfFuel"
| "treeInsert (Suc fuel) tree node key val =
     (let newNode = replicate (2 * BTREE_PAGE_SIZE) 0 in
      rbind (nodeLookupLE (Suc fuel) node key) (\<lambda>idx.
      rbind (btype node) (\<lambda>bt.
      if bt = BNODE_LEAF
      then rbind (getKey node idx) (\<lambda>k.
             if key = k
             then rbind (leafUpdate newNode node idx key val) (\<lambda>newNode. Inr (newNode, tree))
             else rbind (leafInsert newNode node (idx + 1) key val) (\<lambda>newNode. Inr (newNode, tree)))
      else if bt = BNODE_NODE
      then nodeInsert fuel tree newNode node idx key val
      else Inl RuntimePanic)))"
| "nodeInsert fuel tree new node idx key val =
     rbind (getPtr node idx) (\<lambda>kptr.
     rbind (tree_Get tree kptr) (\<lambda>kid.
     rbind (treeInsert fuel tree kid key val) (\<lambda>(knode, tree).
     rbind (nodeSplit3 knode) (\<lambda>(nsplit, split).
     rbind (tree_Del tree kptr) (\<lambda>tree.
     nodeReplaceKidN tree new node idx (take (unat nsplit) split))))))"

definition Insert :: "nat \<Rightarrow> BTree \<Rightarrow> byte list \<Rightarrow> byte list \<Rightarrow> error + BTree" where
  "Insert fuel tree key val =
     (if root tree = 0
      then
        rbind (setHeader (replicate BTREE_PAGE_SIZE 0) BNODE_LEAF 2) (\<lambda>rt.
        rbind (nodeAppendKV rt 0 0 [] []) (\<lambda>rt.
        rbind (nodeAppendKV rt 1 0 key val) (\<lambda>rt.
        rbind (tree_New tree rt) (\<lambda>(ptr, tree).
        Inr (tree\<lparr>root := ptr\<rparr>)))))
      else
        rbind (tree_Get tree (root tree)) (\<lambda>node.
        rbind (treeInsert fuel tree node key val) (\<lambda>(node, tree).
        rbind (nodeSplit3 node) (\<lambda>(nsplit, split).
        rbind (tree_Del tree (root tree)) (\<lambda>tree.
        if nsplit > 1
        then
          rbind (setHeader (replicate BTREE_PAGE_SIZE 0) BNODE_NODE nsplit) (\<lambda>rt.
          rbind (appendKids tree rt 0 0 (take (unat nsplit) split)) (\<lambda>(rt, tree).
          rbind (tree_New tree rt) (\<lambda>(ptr, tree).
          Inr (tree\<lparr>root := ptr\<rparr>))))
        else
          rbind (tree_New tree (split ! 0)) (\<lambda>(ptr, tree).
          Inr (tree\<lparr>root := ptr\<rparr>)))))))"

section \<open>Delete\<close>

text \<open>Go's \<open>(int, BNode)\<close>; \<open>BNode{}\<close> is the empty list.\<close>

definition shouldMerge :: "BTree \<Rightarrow> BNode \<Rightarrow> uint16 \<Rightarrow> BNode \<Rightarrow> error + (int \<times> BNode)" where
  "shouldMerge tree node idx updated =
     rbind (nbytes updated) (\<lambda>unb.
     if unat unb > BTREE_PAGE_SIZE div 4 then Inr (0, [])
     else
       rbind
         (if idx > 0
          then
            rbind (getPtr node (idx - 1)) (\<lambda>ptr.
            rbind (tree_Get tree ptr) (\<lambda>sibling.
            rbind (nbytes sibling) (\<lambda>snb.
            rbind (nbytes updated) (\<lambda>unb.
            if unat (snb + unb - HEADER) \<le> BTREE_PAGE_SIZE
            then Inr (Some (- 1, sibling)) else Inr None))))
          else Inr None)
         (\<lambda>left.
       case left of
         Some r \<Rightarrow> Inr r
       | None \<Rightarrow>
           rbind (nkeys node) (\<lambda>nk.
           if idx + 1 < nk
           then
             rbind (getPtr node (idx + 1)) (\<lambda>ptr.
             rbind (tree_Get tree ptr) (\<lambda>sibling.
             rbind (nbytes sibling) (\<lambda>snb.
             rbind (nbytes updated) (\<lambda>unb.
             if unat (snb + unb - HEADER) \<le> BTREE_PAGE_SIZE
             then Inr (1, sibling) else Inr (0, [])))))
           else Inr (0, []))))"

fun treeDelete :: "nat \<Rightarrow> BTree \<Rightarrow> BNode \<Rightarrow> byte list \<Rightarrow> error + (BNode \<times> BTree)"
and nodeDelete :: "nat \<Rightarrow> BTree \<Rightarrow> BNode \<Rightarrow> uint16 \<Rightarrow> byte list \<Rightarrow> error + (BNode \<times> BTree)"
where
  "treeDelete 0 tree node key = Inl OutOfFuel"
| "treeDelete (Suc fuel) tree node key =
     rbind (nodeLookupLE (Suc fuel) node key) (\<lambda>idx.
     rbind (btype node) (\<lambda>bt.
     if bt = BNODE_LEAF
     then rbind (getKey node idx) (\<lambda>k.
            if key = k
            then rbind (leafDelete (replicate BTREE_PAGE_SIZE 0) node idx) (\<lambda>newNode.
                 Inr (newNode, tree))
            else Inr ([], tree))
     else if bt = BNODE_NODE
     then nodeDelete fuel tree node idx key
     else Inl RuntimePanic))"
| "nodeDelete fuel tree node idx key =
     rbind (getPtr node idx) (\<lambda>kptr.
     rbind (tree_Get tree kptr) (\<lambda>kid.
     rbind (treeDelete fuel tree kid key) (\<lambda>(updated, tree).
     if length updated = 0 then Inr ([], tree)
     else
       rbind (tree_Del tree kptr) (\<lambda>tree.
       let newNode = replicate BTREE_PAGE_SIZE 0 in
       rbind (shouldMerge tree node idx updated) (\<lambda>(mergeDir, sibling).
       if mergeDir < 0
       then
         rbind (nodeMerge (replicate BTREE_PAGE_SIZE 0) sibling updated) (\<lambda>merged.
         rbind (getPtr node (idx - 1)) (\<lambda>lptr.
         rbind (tree_Del tree lptr) (\<lambda>tree.
         rbind (tree_New tree merged) (\<lambda>(mptr, tree).
         rbind (getKey merged 0) (\<lambda>mkey.
         rbind (nodeReplace2Kid newNode node (idx - 1) mptr mkey) (\<lambda>newNode.
         Inr (newNode, tree)))))))
       else if mergeDir > 0
       then
         rbind (nodeMerge (replicate BTREE_PAGE_SIZE 0) updated sibling) (\<lambda>merged.
         rbind (getPtr node (idx + 1)) (\<lambda>rptr.
         rbind (tree_Del tree rptr) (\<lambda>tree.
         rbind (tree_New tree merged) (\<lambda>(mptr, tree).
         rbind (getKey merged 0) (\<lambda>mkey.
         rbind (nodeReplace2Kid newNode node idx mptr mkey) (\<lambda>newNode.
         Inr (newNode, tree)))))))
       else
         rbind (nkeys updated) (\<lambda>unk.
         if mergeDir = 0 \<and> unk = 0
         then
           rbind (nkeys node) (\<lambda>nk.
           rbind (Assert (nk = 1 \<and> idx = 0)) (\<lambda>_.
           rbind (setHeader newNode BNODE_NODE 0) (\<lambda>newNode.
           Inr (newNode, tree))))
         else
           rbind (nkeys updated) (\<lambda>unk.
           if mergeDir = 0 \<and> unk > 0
           then nodeReplaceKidN tree newNode node idx [updated]
           else Inr (newNode, tree))))))))"

definition Delete :: "nat \<Rightarrow> BTree \<Rightarrow> byte list \<Rightarrow> error + (bool \<times> BTree)" where
  "Delete fuel tree key =
     rbind (tree_Get tree (root tree)) (\<lambda>node.
     rbind (treeDelete fuel tree node key) (\<lambda>(node, tree).
     if length node = 0 then Inr (False, tree)
     else
       rbind (tree_Del tree (root tree)) (\<lambda>tree.
       rbind (btype node) (\<lambda>bt.
       rbind (if bt = BNODE_NODE then rbind (nkeys node) (\<lambda>nk. Inr (nk = 1)) else Inr False)
         (\<lambda>collapse.
       if collapse
       then rbind (getPtr node 0) (\<lambda>ptr. Inr (True, tree\<lparr>root := ptr\<rparr>))
       else rbind (tree_New tree node) (\<lambda>(ptr, tree). Inr (True, tree\<lparr>root := ptr\<rparr>)))))))"

text \<open>The check of \<open>init\<close>, on Go's untyped constants.\<close>

definition node1max :: nat where
  "node1max = unat HEADER + 8 + 2 + 4 + BTREE_MAX_KEY_SIZE + BTREE_MAX_VALUE_SIZE"

definition init :: "error + unit" where
  "init = Assert (node1max < BTREE_PAGE_SIZE)"

text \<open>\<open>NewC\<close> of the test harness: a tree with root 0 over an empty page table.\<close>

definition NewC :: BTree where
  "NewC = \<lparr>root = 0, pages = Map.empty, next_ptr = 1\<rparr>"

text \<open>A sequence of \<open>Insert\<close> calls, as \<open>Add\<close> of the harness issues them one after another.\<close>

fun Inserts :: "nat \<Rightarrow> BTree \<Rightarrow> (byte list \<times> byte list) list \<Rightarrow> error + BTree" where
  "Inserts fuel tree [] = Inr tree"
| "Inserts fuel tree ((key, val) # kvs) =
     rbind (Insert fuel tree key val) (\<lambda>tree. Inserts fuel tree kvs)"

text \<open>\<open>Insert\<close> and then \<open>Read\<close> of the same key, as the tests of the harness do.\<close>

definition Insert_then_Read :: "nat \<Rightarrow> BTree \<Rightarrow> byte list \<Rightarrow> byte list \<Rightarrow> error + (byte list \<times> bool)" where
  "Insert_then_Read fuel tree key val =
     rbind (Insert fuel tree key val) (\<lambda>tree. Read fuel tree key)"

text \<open>A run of zero bytes, kept folded while a buffer is evaluated.\<close>

definition zeros :: "nat \<Rightarrow> byte list" where
  "zeros n = replicate n 0"

text \<open>
  A small tree for the merge decision: an internal node with the links \<open>"" \<mapsto> 5\<close>,
  \<open>"m" \<mapsto> 6\<close>, \<open>"t" \<mapsto> 7\<close>, the leaves at pointers 5 and 7, and the rebuilt second kid.
\<close>

definition ex_parent :: BNode where
  "ex_parent = [1, 0, 3, 0, 5, 0, 0, 0, 0, 0, 0, 0, 6, 0, 0, 0, 0, 0, 0, 0, 7, 0, 0, 0, 0, 0, 0, 0,
                4, 0, 9, 0, 14, 0, 0, 0, 0, 0, 1, 0, 0, 0, 109, 1, 0, 0, 0, 116]"

definition ex_left :: BNode where
  "ex_left = [2, 0, 2, 0, 0, 0, 0, 0, 0, 0, 0, 0, 0, 0, 0, 0, 0, 0, 0, 0, 4, 0, 10, 0,
              0, 0, 0, 0, 1, 0, 1, 0, 97, 49]"

definition ex_right :: BNode where
  "ex_right = [2, 0, 1, 0, 0, 0, 0, 0, 0, 0, 0, 0, 6, 0, 1, 0, 1, 0, 116, 50]"

definition ex_updated :: BNode where
  "ex_updated = [2, 0, 1, 0, 0, 0, 0, 0, 0, 0, 0, 0, 6, 0, 1, 0, 1, 0, 110, 49]"

definition ex_tree :: BTree where
  "ex_tree = \<lparr>root = 8, pages = [5 \<mapsto> ex_left, 7 \<mapsto> ex_right, 8 \<mapsto> ex_parent], next_ptr = 9\<rparr>"

section \<open>Basic rules for the result type\<close>

lemma rbind_Inl [simp]: "rbind (Inl e) f = Inl e"
  by (simp add: rbind_def)

lemma rbind_Inr [simp]: "rbind (Inr x) f = f x"
  by (simp add: rbind_def)

lemma rbind_weak_cong [cong]: "m = m' \<Longrightarrow> rbind m f = rbind m' f"
  by simp

lemma rbind_eq_Inr: "rbind m f = Inr y \<longleftrightarrow> (\<exists>x. m = Inr x \<and> f x = Inr y)"
  by (cases m) simp_all

lemma Assert_True [simp]: "Assert True = Inr ()"
  by (simp add: Assert_def)

lemma Assert_False [simp]: "Assert False = Inl AssertFailed"
  by (simp add: Assert_def)

lemma Assert_eq_Inr [simp]: "Assert c = Inr u \<longleftrightarrow> c"
  by (simp add: Assert_def)

section \<open>Evaluating the code on concrete buffers\<close>

lemma replicate_zeros: "replicate n (0::byte) = zeros n"
  by (simp add: zeros_def)

lemma length_zeros: "length (zeros n) = n"
  by (simp add: zeros_def)

lemma nth_zeros: "i < n \<Longrightarrow> zeros n ! i = 0"
  by (simp add: zeros_def)

lemma upd_zeros: "i < n \<Longrightarrow> (zeros n)[i := x] = zeros i @ x # zeros (n - (i + 1))"
  by (auto simp: zeros_def list_eq_iff_nth_eq nth_append nth_Cons')

lemma take_zeros: "take k (zeros n) = zeros (min k n)"
  by (simp add: zeros_def)

lemma drop_zeros: "drop k (zeros n) = zeros (n - k)"
  by (simp add: zeros_def)

lemma zeros_0: "zeros 0 = []"
  by (simp add: zeros_def)

lemma zeros_eq_Nil: "zeros n = [] \<longleftrightarrow> n = 0"
  by (simp add: zeros_def)

lemma zeros_append: "zeros a @ zeros b = zeros (a + b)" "zeros a @ zeros b @ xs = zeros (a + b) @ xs"
  by (simp_all add: zeros_def replicate_add)

lemma minus_one_uint16: "(- 1 :: uint16) = 65535"
  by simp

lemma lookupLoop_numeral:
  "lookupLoop (numeral n) node key left right found =
     (if left \<le> right
      then rbind (getKey node ((left + right) div 2)) (\<lambda>k.
             if bytes_Compare k key \<le> 0
             then lookupLoop (pred_numeral n) node key ((left + right) div 2 + 1) right ((left + right) div 2)
             else lookupLoop (pred_numeral n) node key left ((left + right) div 2 - 1) found)
      else Inr found)"
  by (simp only: numeral_eq_Suc lookupLoop.simps)

lemma lookupLoop_done: "\<not> left \<le> right \<Longrightarrow> lookupLoop fuel node key left right found = Inr found"
  by (cases fuel) simp_all

lemma copyPtrs_numeral:
  "copyPtrs (numeral c) new old dstNew srcOld n i =
     (if i < n
      then rbind (getPtr old (srcOld + i)) (\<lambda>p.
           rbind (setPtr new (dstNew + i) p) (\<lambda>new.
           copyPtrs (pred_numeral c) new old dstNew srcOld n (i + 1)))
      else Inr new)"
  by (simp only: numeral_eq_Suc copyPtrs.simps)

lemma copyOffsets_numeral:
  "copyOffsets (numeral c) new old dstNew srcOld n dstBegin srcBegin i =
     (if i \<le> n
      then rbind (getOffset old (srcOld + i)) (\<lambda>off.
           rbind (setOffset new (dstNew + i) (dstBegin + off - srcBegin)) (\<lambda>new.
           copyOffsets (pred_numeral c) new old dstNew srcOld n dstBegin srcBegin (i + 1)))
      else Inr new)"
  by (simp only: numeral_eq_Suc copyOffsets.simps)

lemma treeRead_numeral:
  "treeRead (numeral n) tree node key = treeRead (Suc (pred_numeral n)) tree node key"
  by (simp only: numeral_eq_Suc)

lemma treeInsert_numeral:
  "treeInsert (numeral n) tree node key val = treeInsert (Suc (pred_numeral n)) tree node key val"
  by (simp only: numeral_eq_Suc)

lemma treeDelete_numeral:
  "treeDelete (numeral n) tree node key = treeDelete (Suc (pred_numeral n)) tree node key"
  by (simp only: numeral_eq_Suc)

lemmas fuel_numeral =
  lookupLoop_numeral copyPtrs_numeral copyOffsets_numeral
  treeRead_numeral [unfolded treeRead.simps]
  treeInsert_numeral [unfolded treeInsert.simps]
  treeDelete_numeral [unfolded treeDelete.simps]

lemmas codec_defs =
  Uint16_def PutUint16_def Uint64_def PutUint64_def copy_at_def slice_def
  btype_def nkeys_def setHeader_def getPtr_def setPtr_def offsetPos_def getOffset_def
  setOffset_def kvPos_def getKey_def getVal_def nbytes_def
  HEADER_def BTREE_PAGE_SIZE_def BNODE_NODE_def BNODE_LEAF_def

lemmas engine_defs =
  nodeLookupLE_def nodeAppendRange_def nodeAppendKV_def leafInsert_def leafUpdate_def
  leafDelete_def nodeMerge_def nodeReplace2Kid_def nodeSplit2_def nodeSplit3_def
  tree_Get_def tree_New_def tree_Del_def Read_def nodeReplaceKidN_def Insert_def
  shouldMerge_def Delete_def NewC_def

lemmas buffer_eval =
  replicate_zeros length_zeros nth_zeros upd_zeros take_zeros drop_zeros zeros_0 zeros_eq_Nil
  zeros_append nth_append list_update_append word_le_nat_alt word_less_nat_alt
  minus_one_uint16 Let_def

lemmas btree_eval = codec_defs engine_defs buffer_eval fuel_numeral lookupLoop_done

section \<open>Delete on the empty tree\<close>

text \<open>
  Claim C9. \<open>Delete\<close> on a tree whose root pointer is 0 does not return \<open>false\<close>: it hands
  pointer 0 to \<open>Get\<close>, and as no page lives at pointer 0 the assertion of \<open>Get\<close> fails, for
  every key and whatever the fuel.
\<close>

theorem Delete_root0_AssertFailed:
  assumes "root tree = 0" and "pages tree 0 = None"
  shows "Delete fuel tree key = Inl AssertFailed"
  using assms by (simp add: Delete_def tree_Get_def)

theorem Delete_root0_AssertFailed_witness:
  "root NewC = 0 \<and> pages NewC 0 = None \<and> Delete 8 NewC [0x61] = Inl AssertFailed"
  using Delete_root0_AssertFailed [of NewC 8 "[0x61]"] by (simp add: NewC_def)

section \<open>Read after write\<close>

text \<open>
  An \<open>Insert\<close> of the empty key into a tree with a root meets the dummy entry at index 0
  and takes the update path, where \<open>idx - 1\<close> wraps to 65535.
\<close>

lemma Insert_empty_key_AssertFailed:
  "Inserts (Suc n) NewC [([0x61], [0x31]), ([], [0x32])] = Inl AssertFailed"
  by (simp add: btree_eval)

text \<open>
  Claim C1 (read-after-write for distinct keys) fails on the code. Three inserts with
  distinct, non-empty keys within the size limits, \<open>"x" \<mapsto> "1"\<close>, then \<open>"y"\<close> and \<open>"z"\<close> with
  3000-byte values: the third \<open>Insert\<close> does not return. The leaf grows to four entries,
  \<open>nodeSplit2\<close> cuts it by key count into two and two, the right half holds both large
  entries (6034 bytes), and \<open>New\<close> of the page store refuses it. This holds for every fuel
  of at least 2 (less fuel runs out).
\<close>

theorem Inserts_distinct_keys_AssertFailed:
  "distinct (map fst [([0x78 :: byte], [0x31 :: byte]), ([0x79], replicate 3000 0x76), ([0x7a], replicate 3000 0x76)])
   \<and> list_all (\<lambda>(k, v). 0 < length k \<and> length k \<le> BTREE_MAX_KEY_SIZE \<and> length v \<le> BTREE_MAX_VALUE_SIZE)
        [([0x78 :: byte], [0x31 :: byte]), ([0x79], replicate 3000 0x76), ([0x7a], replicate 3000 0x76)]
   \<and> Inserts (Suc (Suc n)) NewC
        [([0x78], [0x31]), ([0x79], replicate 3000 0x76), ([0x7a], replicate 3000 0x76)]
       = Inl AssertFailed"
  by (simp add: btree_eval BTREE_MAX_KEY_SIZE_def BTREE_MAX_VALUE_SIZE_def)

section \<open>Updating a key\<close>

text \<open>
  An update at index 2: after \<open>Insert("a", "1")\<close>, \<open>Insert("b", "1")\<close>, \<open>Insert("b", "2")\<close>
  the entry at index 1 of the leaf cannot be decoded, and every \<open>Read\<close> fails.
\<close>

lemma Insert_existing_key_corrupts_leaf:
  "rbind (Inserts (Suc (Suc n)) NewC [([0x61], [0x31]), ([0x62], [0x31]), ([0x62], [0x32])]) (\<lambda>t.
   rbind (tree_Get t (root t)) (\<lambda>leaf.
   rbind (getKey leaf 0) (\<lambda>k0.
   Inr (k0, getKey leaf 1, Read (Suc (Suc n)) t [0x62], Read (Suc (Suc n)) t [0x61]))))
   = Inr ([0x62], Inl RuntimePanic, Inl RuntimePanic, Inl RuntimePanic)"
  by (simp add: btree_eval)

text \<open>
  Claim C3 (a leaf update keeps the other entries and stores the new value) fails on the
  code. After \<open>Insert("a", "1")\<close> and \<open>Insert("a", "2")\<close>, \<open>Read("a")\<close> still returns \<open>"1"\<close>,
  and the rebuilt leaf has lost the entry in front of the key: its index 0 now holds \<open>"a"\<close>
  too, where the old leaf had the empty key. \<open>leafUpdate\<close> copies \<open>idx - 1\<close> entries instead
  of \<open>idx\<close>, and then copies the old entry \<open>idx\<close> over the new one. This holds for every
  fuel of at least 1.
\<close>

theorem Insert_existing_key_keeps_old_value:
  "rbind (Inserts (Suc n) NewC [([0x61], [0x31]), ([0x61], [0x32])]) (\<lambda>t.
   rbind (Read (Suc n) t [0x61]) (\<lambda>r.
   rbind (tree_Get t (root t)) (\<lambda>leaf.
   rbind (nkeys leaf) (\<lambda>nk.
   rbind (getKey leaf 0) (\<lambda>k0.
   rbind (getKey leaf 1) (\<lambda>k1.
   rbind (getVal leaf 1) (\<lambda>v1.
   Inr (r, nk, k0, k1, v1))))))))
   = Inr (([0x31], True), 2, [0x61], [0x61], [0x31])"
  by (simp add: btree_eval)

section \<open>Splitting\<close>

text \<open>
  Claim C5 (every output of \<open>nodeSplit3\<close> fits a page) fails on the code. The node is the
  one \<open>treeInsert\<close> builds for \<open>Insert("z", 3000 bytes)\<close> into the leaf holding the empty
  key, \<open>"x" \<mapsto> "1"\<close> and \<open>"y" \<mapsto> 3000 bytes\<close>: a leaf of 4 keys and 6064 bytes in a buffer
  of 8192. \<open>nodeSplit3\<close> returns two leaves of two keys each; the left has 34 bytes, and the
  right, returned as it is, 6034 in a buffer of 4096. This holds for every fuel of at
  least 2.
\<close>

theorem nodeSplit3_right_node_oversized:
  "rbind (Inserts (Suc (Suc n)) NewC [([0x78], [0x31]), ([0x79], replicate 3000 0x76)]) (\<lambda>t.
   rbind (tree_Get t (root t)) (\<lambda>leaf.
   rbind (treeInsert (Suc (Suc n)) t leaf [0x7a] (replicate 3000 0x76)) (\<lambda>(old, t).
   rbind (nbytes old) (\<lambda>nb.
   rbind (btype old) (\<lambda>bt.
   rbind (nkeys old) (\<lambda>nk.
   rbind (nodeSplit3 old) (\<lambda>(nsplit, split).
   rbind (btype (split ! 1)) (\<lambda>rbt.
   rbind (nkeys (split ! 1)) (\<lambda>rnk.
   rbind (nbytes (split ! 0)) (\<lambda>lnb.
   rbind (nbytes (split ! 1)) (\<lambda>rnb.
   Inr (length old, nb, bt, nk, nsplit, rbt, rnk, lnb, rnb, length (split ! 1)))))))))))))
   = Inr (2 * BTREE_PAGE_SIZE, 6064, BNODE_LEAF, 4, 2, BNODE_LEAF, 2, 34, 6034, BTREE_PAGE_SIZE)"
  by (simp add: btree_eval)

section \<open>Merging\<close>

text \<open>
  \<open>nodeReplace2Kid\<close> returns for no input with fewer than 65535 keys in the old node: its
  last \<open>nodeAppendRange\<close> starts at link \<open>idx + 2\<close> and asks for \<open>nkeys - idx - 1\<close> links, one
  more than there are.
\<close>

lemma nodeReplace2Kid_never_returns:
  assumes "nkeys old = Inr onk" and "onk \<noteq> 65535"
  shows "nodeReplace2Kid new old idx ptr key \<noteq> Inr r"
proof
  assume "nodeReplace2Kid new old idx ptr key = Inr r"
  then obtain b where "nodeAppendRange b old (idx + 1) (idx + 2) (onk - idx - 1) = Inr r"
    using assms(1) by (auto simp: nodeReplace2Kid_def rbind_eq_Inr)
  then have "idx + 2 + (onk - idx - 1) \<le> onk"
    using assms(1) by (auto simp: nodeAppendRange_def rbind_eq_Inr split: if_splits)
  moreover have "idx + 2 + (onk - idx - 1) = onk + 1"
    by simp
  ultimately have "onk + 1 \<le> onk"
    by simp
  moreover have "onk < onk + 1"
  proof -
    have "unat onk \<noteq> unat (65535 :: uint16)"
      using assms(2) by (simp only: word_unat_eq_iff [symmetric]) simp
    moreover have "unat onk < 65536"
      using unsigned_less [of onk, where 'a = nat] by simp
    ultimately have "unat onk + unat (1 :: uint16) < 2 ^ LENGTH(16)"
      by simp
    then have "unat (onk + 1) = unat onk + 1"
      by (simp add: unat_add_lem [THEN iffD1])
    then show ?thesis
      by (simp add: word_less_nat_alt)
  qed
  ultimately show False
    by simp
qed

text \<open>
  Claim C2 (a \<open>Delete\<close> that merges returns \<open>true\<close> and keeps the other keys readable)
  fails on the code. After \<open>Insert("x", 3000 bytes)\<close> and \<open>Insert("y", 3000 bytes)\<close> the root
  is an internal node over two leaves, and both keys are readable. \<open>Delete("y")\<close> empties the
  second leaf, \<open>shouldMerge\<close> answers \<open>-1\<close> (merge with the left sibling), and \<open>Delete\<close> does
  not return: the last \<open>nodeAppendRange\<close> of \<open>nodeReplace2Kid\<close> asks for one link more than
  the old node has. This holds for every fuel of at least 2.
\<close>

theorem Delete_with_merge_AssertFailed:
  "rbind (Inserts (Suc (Suc n)) NewC [([0x78], replicate 3000 0x76), ([0x79], replicate 3000 0x76)]) (\<lambda>t.
   rbind (Read (Suc (Suc n)) t [0x78]) (\<lambda>rx.
   rbind (Read (Suc (Suc n)) t [0x79]) (\<lambda>ry.
   rbind (tree_Get t (root t)) (\<lambda>node.
   rbind (btype node) (\<lambda>bt.
   rbind (nkeys node) (\<lambda>nk.
   rbind (getPtr node 1) (\<lambda>kptr.
   rbind (tree_Get t kptr) (\<lambda>kid.
   rbind (treeDelete (Suc n) t kid [0x79]) (\<lambda>(updated, t1).
   rbind (tree_Del t1 kptr) (\<lambda>t2.
   rbind (shouldMerge t2 node 1 updated) (\<lambda>(mergeDir, sibling).
   Inr (rx = (replicate 3000 0x76, True), ry = (replicate 3000 0x76, True), bt, nk, mergeDir,
        Delete (Suc (Suc n)) t [0x79]))))))))))))
   = Inr (True, True, BNODE_NODE, 2, - 1, Inl AssertFailed)"
  by (simp add: btree_eval)

section \<open>The minimum-key invariant\<close>

text \<open>
  Claim C6 (index 0 of every node holds the minimum key below it, in every tree reachable
  by \<open>Insert\<close> and \<open>Delete\<close>) fails on the code. \<open>Insert("b", "1")\<close>, \<open>Delete("")\<close>,
  \<open>Insert("a", "2")\<close>: \<open>Delete\<close> removes the dummy entry with the empty key and returns
  \<open>true\<close>; the next \<open>Insert\<close> finds no entry below \<open>"a"\<close> and puts it behind index 0. The
  root is a leaf with the keys \<open>"b"\<close>, \<open>"a"\<close> in this order, and \<open>Read("b")\<close> reports it
  missing. This holds for every fuel of at least 1.
\<close>

theorem min_key_broken_after_Delete_dummy:
  "rbind (Insert (Suc n) NewC [0x62] [0x31]) (\<lambda>t.
   rbind (Delete (Suc n) t []) (\<lambda>(b, t).
   rbind (Insert (Suc n) t [0x61] [0x32]) (\<lambda>t.
   rbind (tree_Get t (root t)) (\<lambda>node.
   rbind (btype node) (\<lambda>bt.
   rbind (nkeys node) (\<lambda>nk.
   rbind (getKey node 0) (\<lambda>k0.
   rbind (getKey node 1) (\<lambda>k1.
   rbind (Read (Suc n) t [0x62]) (\<lambda>r.
   Inr (b, bt, nk, k0, k1, bytes_Compare k0 k1, r))))))))))
   = Inr (True, BNODE_LEAF, 2, [0x62], [0x61], 1, ([], False))"
  by (simp add: btree_eval)

section \<open>Deleting an absent key\<close>

text \<open>
  On a tree with a root, \<open>Delete\<close> follows the path of \<open>Read\<close>: where \<open>Read\<close> reports the key
  absent, \<open>Delete\<close> returns \<open>false\<close> and the tree, pages and root, is the one it was given.
\<close>

lemma treeRead_absent_treeDelete:
  "treeRead fuel tree node key = Inr (v, False) \<Longrightarrow> treeDelete fuel tree node key = Inr ([], tree)"
proof (induction fuel arbitrary: node)
  case 0
  then show ?case by simp
next
  case (Suc fuel)
  from Suc.prems obtain idx bt where
    idx: "nodeLookupLE (Suc fuel) node key = Inr idx" and bt: "btype node = Inr bt"
    and body: "(if bt = BNODE_LEAF
        then rbind (getKey node idx) (\<lambda>k.
               if key = k then rbind (getVal node idx) (\<lambda>v. Inr (v, True))
               else Inr ([], False))
        else if bt = BNODE_NODE
        then rbind (getPtr node idx) (\<lambda>ptr.
             rbind (tree_Get tree ptr) (\<lambda>kid.
             treeRead fuel tree kid key))
        else Inl RuntimePanic) = Inr (v, False)"
    by (auto simp: rbind_eq_Inr)
  show ?case
  proof (cases "bt = BNODE_LEAF")
    case True
    with body obtain k where "getKey node idx = Inr k" "key \<noteq> k"
      by (auto simp: rbind_eq_Inr split: if_splits)
    then show ?thesis
      using idx bt True by simp
  next
    case False
    with body have node: "bt = BNODE_NODE"
      by (auto split: if_splits)
    with body False obtain ptr kid where
      p: "getPtr node idx = Inr ptr" "tree_Get tree ptr = Inr kid"
      and r: "treeRead fuel tree kid key = Inr (v, False)"
      by (auto simp: rbind_eq_Inr)
    from Suc.IH [OF r] show ?thesis
      using idx bt False node p by simp
  qed
qed

lemma Delete_absent_nonempty:
  assumes "Read fuel tree key = Inr (v, False)" and "root tree \<noteq> 0"
  shows "Delete fuel tree key = Inr (False, tree)"
proof -
  from assms obtain node where n: "tree_Get tree (root tree) = Inr node"
    and r: "treeRead fuel tree node key = Inr (v, False)"
    by (auto simp: Read_def rbind_eq_Inr)
  from treeRead_absent_treeDelete [OF r] n show ?thesis
    by (simp add: Delete_def)
qed

text \<open>
  Claim C7 (\<open>Delete\<close> of an absent key returns \<open>false\<close> and changes nothing, for every
  tree) fails on the empty tree: \<open>Read\<close> reports the key absent, as it checks for root 0,
  and \<open>Delete\<close>, which does not, fails in \<open>Get\<close>.
\<close>

theorem Delete_absent_key_on_empty_tree:
  "Read fuel NewC key = Inr ([], False) \<and> Delete fuel NewC key = Inl AssertFailed"
  by (simp add: btree_eval)

section \<open>The merge decision\<close>

lemma merged_size:
  fixes snb unb :: uint16
  assumes "unat HEADER \<le> unat snb" "unat snb \<le> BTREE_PAGE_SIZE" "unat unb \<le> BTREE_PAGE_SIZE div 4"
  shows "unat (snb + unb - HEADER) = unat snb + unat unb - unat HEADER"
proof -
  have a: "unat (snb + unb) = unat snb + unat unb"
    using assms by (simp add: unat_add_lem [THEN iffD1] BTREE_PAGE_SIZE_def)
  have "HEADER \<le> snb + unb"
    using assms a by (simp add: word_le_nat_alt)
  then show ?thesis
    using a by (simp add: unat_sub)
qed

lemma unat_succ_less:
  fixes idx nk :: uint16
  assumes "idx < nk"
  shows "unat (idx + 1) = unat idx + 1"
proof -
  have "unat nk < 2 ^ 16"
    using unsigned_less [of nk, where 'a = nat] by simp
  then have "unat idx + unat (1 :: uint16) < 2 ^ LENGTH(16)"
    using assms by (simp add: word_less_nat_alt)
  then show ?thesis
    by (simp add: unat_add_lem [THEN iffD1])
qed

text \<open>
  Claim C8. For an internal node with \<open>nk\<close> keys, a kid index \<open>idx < nk\<close> and the rebuilt
  kid \<open>updated\<close> of \<open>unb\<close> bytes, with the siblings being pages of the store whose sizes lie
  between the header size and the page size: \<open>shouldMerge\<close> answers no merge when
  \<open>unb > PAGE_SIZE / 4\<close>; otherwise the left sibling when there is one (\<open>idx > 0\<close>) and
  \<open>left + unb - HEADER \<le> PAGE_SIZE\<close>; otherwise the right sibling when there is one
  (\<open>idx + 1 < nk\<close>) and it passes the same test; otherwise no merge. The sizes on the right
  are natural numbers: the 16-bit sum of the code does not wrap on them.
\<close>

theorem shouldMerge_rule:
  assumes upd: "nbytes updated = Inr unb"
    and nk: "nkeys node = Inr nk"
    and idx: "idx < nk"
    and left: "0 < idx \<Longrightarrow>
        getPtr node (idx - 1) = Inr lp \<and> tree_Get tree lp = Inr L \<and> nbytes L = Inr lnb
        \<and> unat HEADER \<le> unat lnb \<and> unat lnb \<le> BTREE_PAGE_SIZE"
    and right: "idx + 1 < nk \<Longrightarrow>
        getPtr node (idx + 1) = Inr rp \<and> tree_Get tree rp = Inr R \<and> nbytes R = Inr rnb
        \<and> unat HEADER \<le> unat rnb \<and> unat rnb \<le> BTREE_PAGE_SIZE"
  shows "shouldMerge tree node idx updated =
     Inr (if unat unb > BTREE_PAGE_SIZE div 4 then (0, [])
          else if 0 < unat idx \<and> unat lnb + unat unb - unat HEADER \<le> BTREE_PAGE_SIZE then (- 1, L)
          else if unat idx + 1 < unat nk \<and> unat rnb + unat unb - unat HEADER \<le> BTREE_PAGE_SIZE then (1, R)
          else (0, []))"
proof (cases "unat unb > BTREE_PAGE_SIZE div 4")
  case True
  then show ?thesis by (simp add: shouldMerge_def upd)
next
  case small: False
  have i0: "0 < idx \<longleftrightarrow> 0 < unat idx"
    by (simp add: word_less_nat_alt)
  have i1: "idx + 1 < nk \<longleftrightarrow> unat idx + 1 < unat nk"
    using unat_succ_less [OF idx] by (simp add: word_less_nat_alt)
  show ?thesis
  proof (cases "0 < idx")
    case l: True
    note L = left [OF l]
    have m: "unat (lnb + unb - HEADER) = unat lnb + unat unb - unat HEADER"
      using L small by (intro merged_size) simp_all
    show ?thesis
    proof (cases "unat lnb + unat unb - unat HEADER \<le> BTREE_PAGE_SIZE")
      case True
      then show ?thesis
        using small l L m i0 by (simp add: shouldMerge_def upd)
    next
      case nofit: False
      show ?thesis
      proof (cases "idx + 1 < nk")
        case r: True
        note R = right [OF r]
        have "unat (rnb + unb - HEADER) = unat rnb + unat unb - unat HEADER"
          using R small by (intro merged_size) simp_all
        then show ?thesis
          using small l L m nofit r R i1 by (simp add: shouldMerge_def upd nk)
      next
        case False
        then show ?thesis
          using small l L m nofit i1 by (simp add: shouldMerge_def upd nk)
      qed
    qed
  next
    case nl: False
    show ?thesis
    proof (cases "idx + 1 < nk")
      case r: True
      note R = right [OF r]
      have "unat (rnb + unb - HEADER) = unat rnb + unat unb - unat HEADER"
        using R small by (intro merged_size) simp_all
      then show ?thesis
        using small nl r R i0 i1 by (simp add: shouldMerge_def upd nk)
    next
      case False
      then show ?thesis
        using small nl i0 i1 by (simp add: shouldMerge_def upd nk)
    qed
  qed
qed

theorem shouldMerge_rule_witness:
  "nbytes ex_updated = Inr 20 \<and> nkeys ex_parent = Inr 3 \<and> (1 :: uint16) < 3
   \<and> getPtr ex_parent (1 - 1) = Inr 5 \<and> tree_Get ex_tree 5 = Inr ex_left \<and> nbytes ex_left = Inr 34
   \<and> getPtr ex_parent (1 + 1) = Inr 7 \<and> tree_Get ex_tree 7 = Inr ex_right \<and> nbytes ex_right = Inr 20
   \<and> shouldMerge ex_tree ex_parent 1 ex_updated = Inr (- 1, ex_left)"
  using shouldMerge_rule [of ex_updated 20 ex_parent 3 1 5 ex_tree ex_left 34 7 ex_right 20]
  by (simp add: codec_defs tree_Get_def ex_parent_def ex_left_def ex_right_def ex_updated_def
      ex_tree_def word_le_nat_alt word_less_nat_alt)

section \<open>Size limits\<close>

lemma u16_bytes:
  "(ucast (ucast w :: byte) OR push_bit 8 (ucast (ucast (drop_bit 8 w) :: byte)) :: uint16) = w"
  by (rule bit_word_eqI) (auto simp: bit_simps)

lemma bytes_Compare_refl: "bytes_Compare k k = 0"
  by (induction k) simp_all

lemma take_Cons_add: "0 < m \<Longrightarrow> take (m + n) (x # xs) = x # take (m - 1 + n) xs"
  by (cases m) simp_all

lemma drop_Cons_add: "0 < m \<Longrightarrow> drop (m + n) (x # xs) = drop (m - 1 + n) xs"
  by (cases m) simp_all

lemma init_passes: "init = Inr ()"
  by (simp add: init_def node1max_def HEADER_def BTREE_MAX_KEY_SIZE_def BTREE_MAX_VALUE_SIZE_def
      BTREE_PAGE_SIZE_def)

text \<open>
  Claim C4 (an \<open>Insert\<close> with a key over 1000 bytes or a value over 3000 bytes fails with a
  fatal contract violation) fails on the code: with a key of 1001 bytes and a value of 3001
  bytes, \<open>Insert\<close> on the empty tree returns normally and \<open>Read\<close> finds the key.
\<close>

theorem Insert_over_both_limits_returns:
  "BTREE_MAX_KEY_SIZE < length (replicate 1001 (0x6b :: byte))
   \<and> BTREE_MAX_VALUE_SIZE < length (replicate 3001 (0x76 :: byte))
   \<and> \<not> isl (Insert 1 NewC (replicate 1001 0x6b) (replicate 3001 0x76))
   \<and> Insert_then_Read 1 NewC (replicate 1001 0x6b) (replicate 3001 0x76)
       = Inr (replicate 3001 0x76, True)"
  by (simp add: btree_eval Insert_then_Read_def bytes_Compare_refl BTREE_MAX_KEY_SIZE_def
      BTREE_MAX_VALUE_SIZE_def)

text \<open>
  Claim C4 as amended. \<open>Insert\<close> compares no length with the two limits; they occur in
  \<open>init\<close> only. What decides on the empty tree is whether the root leaf, 32 bytes of layout
  and the key and the value, fits a page. For a key and a value with
  \<open>32 + |key| + |val| < 65536\<close>: when \<open>32 + |key| + |val| \<le> PAGE_SIZE\<close>, \<open>Insert\<close> returns and
  \<open>Read\<close> gives the value back, whatever the two lengths; otherwise \<open>Insert\<close> fails fatally,
  by a slice out of range when the key alone passes the end of the page, else by the size
  assertion of the page store.
\<close>

theorem Insert_empty_tree_fits_page:
  assumes "32 + length key + length val < 65536"
  shows "if 32 + length key + length val \<le> BTREE_PAGE_SIZE
         then \<exists>t. Insert fuel NewC key val = Inr t \<and> Read (Suc n) t key = Inr (val, True)
         else Insert fuel NewC key val =
                Inl (if BTREE_PAGE_SIZE < 32 + length key then RuntimePanic else AssertFailed)"
  using assms
  by (simp add: btree_eval unat_word_ariths unat_of_nat u16_bytes bytes_Compare_refl
      take_Cons_add drop_Cons_add)

theorem Insert_empty_tree_fits_page_witness:
  "32 + length (replicate 1001 (0x6b :: byte)) + length ([] :: byte list) < 65536
   \<and> (\<exists>t. Insert 0 NewC (replicate 1001 0x6b) [] = Inr t
          \<and> Read (Suc 0) t (replicate 1001 0x6b) = Inr ([], True))"
  using Insert_empty_tree_fits_page [of "replicate 1001 0x6b" "[]" 0 0]
  by (simp add: BTREE_PAGE_SIZE_def)

section \<open>The kind of a merged node\<close>

lemma ptr_pos:
  fixes idx nk :: uint16
  assumes "unat nk \<le> 511" "idx < nk"
  shows "unat (HEADER + 8 * idx) = 4 + 8 * unat idx"
proof -
  have "unat idx < 511" using assms by (simp add: word_less_nat_alt)
  then show ?thesis
    by (simp add: unat_word_ariths HEADER_def)
qed

lemma off_pos:
  fixes idx nk :: uint16
  assumes "unat nk \<le> 511" "1 \<le> idx" "idx \<le> nk"
  shows "unat (HEADER + 8 * nk + 2 * (idx - 1)) = 4 + 8 * unat nk + 2 * (unat idx - 1)"
proof -
  have i: "unat idx \<le> unat nk" "1 \<le> unat idx"
    using assms by (simp_all add: word_le_nat_alt)
  have "unat (idx - 1) = unat idx - 1"
    using assms(2) by (simp add: unat_sub)
  then show ?thesis
    using i assms(1) by (simp add: unat_word_ariths HEADER_def)
qed

lemma kv_pos:
  fixes nk off :: uint16
  assumes "unat nk \<le> 511" "unat off \<le> 8192"
  shows "unat (HEADER + 8 * nk + 2 * nk + off) = 4 + 10 * unat nk + unat off"
  using assms by (simp add: unat_word_ariths HEADER_def)

subsection \<open>Lengths\<close>

lemma PutUint16_Inr:
  "PutUint16 b p v = Inr b' \<longleftrightarrow>
     p + 2 \<le> length b \<and> b' = b[p := ucast v, p + 1 := ucast (drop_bit 8 v)]"
  by (auto simp: PutUint16_def)

lemma PutUint64_length: "PutUint64 b p v = Inr b' \<Longrightarrow> length b' = length b \<and> p + 8 \<le> length b"
  by (auto simp: PutUint64_def split: if_splits)

lemma copy_at_length: "copy_at dst p src = Inr d' \<Longrightarrow> length d' = length dst"
  by (auto simp: copy_at_def split: if_splits)

lemma copy_at_take: "copy_at dst p src = Inr d' \<Longrightarrow> k \<le> p \<Longrightarrow> take k d' = take k dst"
  by (auto simp: copy_at_def split: if_splits)

lemma setPtr_length: "setPtr b idx v = Inr b' \<Longrightarrow> length b' = length b"
  by (auto simp: setPtr_def rbind_eq_Inr dest: PutUint64_length)

lemma setOffset_length: "setOffset b idx v = Inr b' \<Longrightarrow> length b' = length b"
  by (auto simp: setOffset_def rbind_eq_Inr PutUint16_Inr split: if_splits)

lemma copyPtrs_length: "copyPtrs c b old d s n i = Inr r \<Longrightarrow> length r = length b"
proof (induction c arbitrary: b i)
  case 0
  then show ?case by (simp split: if_splits)
next
  case (Suc c)
  then show ?case
    by (auto simp: rbind_eq_Inr split: if_splits dest!: setPtr_length)
qed

lemma copyOffsets_length: "copyOffsets c b old d s n db sb i = Inr r \<Longrightarrow> length r = length b"
proof (induction c arbitrary: b i)
  case 0
  then show ?case by (simp split: if_splits)
next
  case (Suc c)
  then show ?case
    by (auto simp: rbind_eq_Inr split: if_splits dest!: setOffset_length)
qed

lemma hdr_cong:
  assumes "length b' = length b" "take 4 b' = take 4 b"
  shows "nkeys b' = nkeys b" and "btype b' = btype b"
proof -
  have "\<And>q. q < 4 \<Longrightarrow> b' ! q = b ! q"
    using assms(2) by (metis nth_take)
  then show "nkeys b' = nkeys b" and "btype b' = btype b"
    using assms(1) by (simp_all add: nkeys_def btype_def Uint16_def)
qed

subsection \<open>Pointers\<close>

lemma word_succ:
  fixes i n :: uint16
  assumes "i < n"
  shows "unat (i + 1) = unat i + 1" and "i < i + 1"
proof -
  show u: "unat (i + 1) = unat i + 1"
    using assms by (rule unat_succ_less)
  show "i < i + 1"
    using u by (simp add: word_less_nat_alt)
qed

lemma copyPtrs_done: "\<not> i < n \<Longrightarrow> copyPtrs c b old d s n i = Inr b"
  by (cases c) simp_all

lemma copyPtrs_step:
  "i < n \<Longrightarrow> copyPtrs (Suc c) b old d s n i = Inr r \<longleftrightarrow>
     (\<exists>p b1. getPtr old (s + i) = Inr p \<and> setPtr b (d + i) p = Inr b1
        \<and> copyPtrs c b1 old d s n (i + 1) = Inr r)"
  by (simp add: rbind_eq_Inr)

lemma setPtr_in_range:
  "setPtr b idx v = Inr b' \<Longrightarrow> unat (HEADER + 8 * idx) + 8 \<le> length b"
  by (auto simp: setPtr_def rbind_eq_Inr dest: PutUint64_length)

lemma copyPtrs_in_range:
  assumes "copyPtrs c b old d s n i = Inr r" and "c = unat n - unat i"
    and "i \<le> w" "w < n"
  shows "unat (HEADER + 8 * (d + w)) + 8 \<le> length b"
  using assms
proof (induction c arbitrary: b i)
  case 0
  then show ?case by (simp add: word_less_nat_alt word_le_nat_alt)
next
  case (Suc c)
  have lt: "i < n" using Suc.prems by simp
  from Suc.prems(1) lt obtain p b1 where
    sp: "setPtr b (d + i) p = Inr b1" and rest: "copyPtrs c b1 old d s n (i + 1) = Inr r"
    by (auto simp: rbind_eq_Inr)
  show ?case
  proof (cases "w = i")
    case True
    then show ?thesis using setPtr_in_range [OF sp] by simp
  next
    case False
    then have "i < w" using Suc.prems by simp
    then have le: "i + 1 \<le> w" by (simp add: inc_le)
    have c: "c = unat n - unat (i + 1)"
      using Suc.prems(2) word_succ(1) [OF lt] by simp
    have "unat (HEADER + 8 * (d + w)) + 8 \<le> length b1"
      by (rule Suc.IH [OF rest c le Suc.prems(4)])
    then show ?thesis using setPtr_length [OF sp] by simp
  qed
qed

lemma setPtr_frame:
  assumes "setPtr b idx v = Inr b'" "nkeys b = Inr nk" "unat nk \<le> 511"
  shows "take 4 b' = take 4 b" and "drop (4 + 8 * unat nk) b' = drop (4 + 8 * unat nk) b"
proof -
  from assms(1,2) have lt: "idx < nk"
    and put: "PutUint64 b (unat (HEADER + 8 * idx)) v = Inr b'"
    by (auto simp: setPtr_def rbind_eq_Inr)
  have pos: "unat (HEADER + 8 * idx) = 4 + 8 * unat idx"
    by (rule ptr_pos [OF assms(3) lt])
  have "unat idx < unat nk" using lt by (simp add: word_less_nat_alt)
  then have hi: "4 + 8 * unat idx + 7 < 4 + 8 * unat nk" by simp
  from put show "take 4 b' = take 4 b"
    by (auto simp: PutUint64_def pos split: if_splits)
  from put hi show "drop (4 + 8 * unat nk) b' = drop (4 + 8 * unat nk) b"
    by (auto simp: PutUint64_def pos split: if_splits)
qed

lemma copyPtrs_frame:
  assumes "copyPtrs c b old d s n i = Inr r" "nkeys b = Inr nk" "unat nk \<le> 511"
  shows "take 4 r = take 4 b \<and> drop (4 + 8 * unat nk) r = drop (4 + 8 * unat nk) b"
  using assms
proof (induction c arbitrary: b i)
  case 0
  then show ?case by (simp split: if_splits)
next
  case (Suc c)
  show ?case
  proof (cases "i < n")
    case True
    from Suc.prems(1) True obtain p b1 where
      sp: "setPtr b (d + i) p = Inr b1" and rest: "copyPtrs c b1 old d s n (i + 1) = Inr r"
      by (auto simp: rbind_eq_Inr)
    note f = setPtr_frame [OF sp Suc.prems(2,3)]
    have "nkeys b1 = Inr nk"
      using hdr_cong(1) [OF setPtr_length [OF sp] f(1)] Suc.prems(2) by simp
    from Suc.IH [OF rest this Suc.prems(3)] f show ?thesis by simp
  next
    case False
    then show ?thesis using Suc.prems(1) by simp
  qed
qed

subsection \<open>Offsets\<close>

lemma take_eq_le:
  assumes "take k r = take k b" "j \<le> k"
  shows "take j r = take j b"
proof -
  have "take j r = take j (take k r)" using assms(2) by (simp add: min_def)
  also have "\<dots> = take j (take k b)" using assms(1) by simp
  also have "\<dots> = take j b" using assms(2) by (simp add: min_def)
  finally show ?thesis .
qed

lemma offsetPos_Inr:
  assumes "nkeys b = Inr nk" "unat nk \<le> 511"
  shows "offsetPos b idx = Inr pos \<longleftrightarrow>
     1 \<le> idx \<and> idx \<le> nk \<and> pos = HEADER + 8 * nk + 2 * (idx - 1)"
  using assms by (auto simp: offsetPos_def rbind_eq_Inr)

lemma setOffset_frame:
  assumes "setOffset b idx v = Inr b'" "nkeys b = Inr nk" "unat nk \<le> 511"
  shows "take (4 + 8 * unat nk + 2 * (unat idx - 1)) b' = take (4 + 8 * unat nk + 2 * (unat idx - 1)) b"
proof (cases "idx = 0")
  case True
  then show ?thesis using assms(1) by (simp add: setOffset_def)
next
  case False
  with assms(1) obtain pos where op: "offsetPos b idx = Inr pos"
    and put: "PutUint16 b (unat pos) v = Inr b'"
    by (auto simp: setOffset_def rbind_eq_Inr)
  from op have i: "1 \<le> idx" "idx \<le> nk" and pos: "pos = HEADER + 8 * nk + 2 * (idx - 1)"
    by (simp_all add: offsetPos_Inr [OF assms(2,3)])
  have "unat pos = 4 + 8 * unat nk + 2 * (unat idx - 1)"
    unfolding pos by (rule off_pos [OF assms(3) i])
  with put show ?thesis
    by (simp add: PutUint16_Inr)
qed

lemma getOffset_setOffset:
  assumes "setOffset b idx v = Inr b'" "nkeys b = Inr nk" "unat nk \<le> 511" "idx \<noteq> 0"
  shows "getOffset b' idx = Inr v"
proof -
  from assms(1,4) obtain pos where op: "offsetPos b idx = Inr pos"
    and put: "PutUint16 b (unat pos) v = Inr b'"
    by (auto simp: setOffset_def rbind_eq_Inr)
  from op have i: "1 \<le> idx" "idx \<le> nk" and pos: "pos = HEADER + 8 * nk + 2 * (idx - 1)"
    by (simp_all add: offsetPos_Inr [OF assms(2,3)])
  have up: "unat pos = 4 + 8 * unat nk + 2 * (unat idx - 1)"
    unfolding pos by (rule off_pos [OF assms(3) i])
  have "take 4 b' = take 4 b"
    using put by (simp add: PutUint16_Inr up)
  then have "nkeys b' = Inr nk"
    using hdr_cong(1) [OF setOffset_length [OF assms(1)]] assms(2) by simp
  then have "offsetPos b' idx = Inr pos"
    using i pos by (simp add: offsetPos_Inr [OF _ assms(3)])
  moreover have "Uint16 b' (unat pos) = Inr v"
    using put by (simp add: PutUint16_Inr Uint16_def u16_bytes)
  ultimately show ?thesis
    using assms(4) by (simp add: getOffset_def)
qed

lemma copyOffsets_done: "\<not> i \<le> n \<Longrightarrow> copyOffsets c b old d s n db sb i = Inr b"
  by (cases c) simp_all

lemma word_add_small:
  fixes d i :: uint16
  assumes "unat d + unat i < 65536"
  shows "unat (d + i) = unat d + unat i"
  using assms by (simp add: unat_add_lem [THEN iffD1])

lemma copyOffsets_frame:
  assumes "copyOffsets c b old d s n db sb i = Inr r" "nkeys b = Inr nk" "unat nk \<le> 511"
    and "unat d + unat n \<le> 511" "1 \<le> i"
  shows "take (4 + 8 * unat nk + 2 * (unat d + unat i - 1)) r
       = take (4 + 8 * unat nk + 2 * (unat d + unat i - 1)) b"
  using assms
proof (induction c arbitrary: b i)
  case 0
  then show ?case by (simp split: if_splits)
next
  case (Suc c)
  show ?case
  proof (cases "i \<le> n")
    case False
    then show ?thesis using Suc.prems(1) by simp
  next
    case True
    from Suc.prems(1) True obtain off b1 where
      so: "setOffset b (d + i) (db + off - sb) = Inr b1"
      and rest: "copyOffsets c b1 old d s n db sb (i + 1) = Inr r"
      by (auto simp: rbind_eq_Inr)
    have ui: "unat i \<le> unat n" using True by (simp add: word_le_nat_alt)
    have di: "unat (d + i) = unat d + unat i"
      using ui Suc.prems(4) by (intro word_add_small) simp
    have i1: "unat (i + 1) = unat i + 1"
      using ui Suc.prems(4) word_add_small [of i 1] by simp
    have f1: "take (4 + 8 * unat nk + 2 * (unat d + unat i - 1)) b1
            = take (4 + 8 * unat nk + 2 * (unat d + unat i - 1)) b"
      using setOffset_frame [OF so Suc.prems(2,3)] di by simp
    have "1 \<le> unat i" using Suc.prems(5) by (simp add: word_le_nat_alt)
    then have "take 4 b1 = take 4 b"
      by (intro take_eq_le [OF f1]) simp
    then have nk1: "nkeys b1 = Inr nk"
      using hdr_cong(1) [OF setOffset_length [OF so]] Suc.prems(2) by simp
    have "1 \<le> i + 1" using i1 by (simp add: word_le_nat_alt)
    from Suc.IH [OF rest nk1 Suc.prems(3,4) this]
    have "take (4 + 8 * unat nk + 2 * (unat d + unat i)) r
        = take (4 + 8 * unat nk + 2 * (unat d + unat i)) b1"
      by (simp add: i1)
    then have "take (4 + 8 * unat nk + 2 * (unat d + unat i - 1)) r
        = take (4 + 8 * unat nk + 2 * (unat d + unat i - 1)) b1"
      by (rule take_eq_le) simp
    with f1 show ?thesis by simp
  qed
qed

lemma Uint16_take_cong:
  assumes "length b' = length b" "take K b' = take K b" "p + 2 \<le> K"
  shows "Uint16 b' p = Uint16 b p"
proof -
  have "\<And>q. q < K \<Longrightarrow> b' ! q = b ! q"
    using assms(2) by (metis nth_take)
  then show ?thesis
    using assms(1,3) by (simp add: Uint16_def)
qed

lemma Uint16_drop_cong:
  assumes "length b' = length b" "drop K b' = drop K b" "K \<le> p"
  shows "Uint16 b' p = Uint16 b p"
proof (cases "p + 2 \<le> length b")
  case False
  then show ?thesis using assms(1) by (simp add: Uint16_def)
next
  case True
  have "\<And>q. K \<le> q \<Longrightarrow> q < length b \<Longrightarrow> b' ! q = b ! q"
  proof -
    fix q assume q: "K \<le> q" "q < length b"
    have "b' ! q = drop K b' ! (q - K)" using q assms(1) by simp
    also have "\<dots> = drop K b ! (q - K)" using assms(2) by simp
    also have "\<dots> = b ! q" using q by simp
    finally show "b' ! q = b ! q" .
  qed
  then show ?thesis
    using assms(1,3) True by (simp add: Uint16_def)
qed

lemma getOffset_take_cong:
  assumes "length b' = length b" "take K b' = take K b" "nkeys b = Inr nk" "unat nk \<le> 511"
    and "4 + 8 * unat nk + 2 * unat idx \<le> K"
  shows "getOffset b' idx = getOffset b idx"
proof (cases "idx = 0")
  case True
  then show ?thesis by (simp add: getOffset_def)
next
  case False
  have "take 4 b' = take 4 b"
    using assms(5) by (intro take_eq_le [OF assms(2)]) simp
  then have nk': "nkeys b' = Inr nk"
    using hdr_cong(1) [OF assms(1)] assms(3) by simp
  show ?thesis
  proof (cases "1 \<le> idx \<and> idx \<le> nk")
    case False
    then show ?thesis
      using nk' assms(3) by (auto simp: getOffset_def offsetPos_def)
  next
    case True
    then have op: "offsetPos b idx = Inr (HEADER + 8 * nk + 2 * (idx - 1))"
      "offsetPos b' idx = Inr (HEADER + 8 * nk + 2 * (idx - 1))"
      using nk' assms(3,4) by (simp_all add: offsetPos_Inr)
    have up: "unat (HEADER + 8 * nk + 2 * (idx - 1)) = 4 + 8 * unat nk + 2 * (unat idx - 1)"
      using True by (intro off_pos [OF assms(4)]) simp_all
    have "1 \<le> unat idx" using True by (simp add: word_le_nat_alt)
    then have "Uint16 b' (unat (HEADER + 8 * nk + 2 * (idx - 1)))
        = Uint16 b (unat (HEADER + 8 * nk + 2 * (idx - 1)))"
      using assms(5) unfolding up by (intro Uint16_take_cong [OF assms(1,2)]) simp
    then show ?thesis
      using \<open>idx \<noteq> 0\<close> op by (simp add: getOffset_def)
  qed
qed

lemma getOffset_drop_cong:
  assumes "length b' = length b" "take 4 b' = take 4 b"
    and "drop (4 + 8 * unat nk) b' = drop (4 + 8 * unat nk) b"
    and "nkeys b = Inr nk" "unat nk \<le> 511"
  shows "getOffset b' idx = getOffset b idx"
proof (cases "idx = 0")
  case True
  then show ?thesis by (simp add: getOffset_def)
next
  case False
  have nk': "nkeys b' = Inr nk"
    using hdr_cong(1) [OF assms(1,2)] assms(4) by simp
  show ?thesis
  proof (cases "1 \<le> idx \<and> idx \<le> nk")
    case False
    then show ?thesis
      using nk' assms(4) by (auto simp: getOffset_def offsetPos_def)
  next
    case True
    then have op: "offsetPos b idx = Inr (HEADER + 8 * nk + 2 * (idx - 1))"
      "offsetPos b' idx = Inr (HEADER + 8 * nk + 2 * (idx - 1))"
      using nk' assms(4,5) by (simp_all add: offsetPos_Inr)
    have up: "unat (HEADER + 8 * nk + 2 * (idx - 1)) = 4 + 8 * unat nk + 2 * (unat idx - 1)"
      using True by (intro off_pos [OF assms(5)]) simp_all
    have "Uint16 b' (unat (HEADER + 8 * nk + 2 * (idx - 1)))
        = Uint16 b (unat (HEADER + 8 * nk + 2 * (idx - 1)))"
      unfolding up by (intro Uint16_drop_cong [OF assms(1,3)]) simp
    then show ?thesis
      using \<open>idx \<noteq> 0\<close> op by (simp add: getOffset_def)
  qed
qed

lemma copyOffsets_last:
  assumes "copyOffsets c b old d s n db sb i = Inr r" "nkeys b = Inr nk" "unat nk \<le> 511"
    and "unat d + unat n \<le> 511" "1 \<le> i" "i \<le> n"
  shows "\<exists>off. getOffset old (s + n) = Inr off \<and> getOffset r (d + n) = Inr (db + off - sb)"
  using assms
proof (induction c arbitrary: b i)
  case 0
  then show ?case by simp
next
  case (Suc c)
  from Suc.prems(1,6) obtain off b1 where
    go: "getOffset old (s + i) = Inr off"
    and so: "setOffset b (d + i) (db + off - sb) = Inr b1"
    and rest: "copyOffsets c b1 old d s n db sb (i + 1) = Inr r"
    by (auto simp: rbind_eq_Inr)
  have ui: "unat i \<le> unat n" "1 \<le> unat i"
    using Suc.prems(5,6) by (simp_all add: word_le_nat_alt)
  have di: "unat (d + i) = unat d + unat i"
    using ui Suc.prems(4) by (intro word_add_small) simp
  have i1: "unat (i + 1) = unat i + 1"
    using ui Suc.prems(4) word_add_small [of i 1] by simp
  have nz: "d + i \<noteq> 0"
    using di ui by (metis add_is_0 not_one_le_zero unat_0)
  have f1: "take (4 + 8 * unat nk + 2 * (unat d + unat i - 1)) b1
          = take (4 + 8 * unat nk + 2 * (unat d + unat i - 1)) b"
    using setOffset_frame [OF so Suc.prems(2,3)] di by simp
  have "take 4 b1 = take 4 b"
    using ui by (intro take_eq_le [OF f1]) simp
  then have nk1: "nkeys b1 = Inr nk"
    using hdr_cong(1) [OF setOffset_length [OF so]] Suc.prems(2) by simp
  show ?case
  proof (cases "i = n")
    case True
    then have "\<not> i + 1 \<le> n"
      using i1 by (simp add: word_le_nat_alt)
    then have "r = b1"
      using rest by (simp add: copyOffsets_done)
    then show ?thesis
      using go getOffset_setOffset [OF so Suc.prems(2,3) nz] True by simp
  next
    case False
    then have "i + 1 \<le> n"
      using Suc.prems(6) by (simp add: inc_le)
    moreover have "1 \<le> i + 1"
      using i1 by (simp add: word_le_nat_alt)
    ultimately show ?thesis
      using Suc.IH [OF rest nk1 Suc.prems(3,4)] by simp
  qed
qed

subsection \<open>\<open>nodeAppendRange\<close>\<close>

lemma nodeAppendRange_0: "nodeAppendRange b old d s 0 = Inr r \<Longrightarrow> r = b"
  by (auto simp: nodeAppendRange_def rbind_eq_Inr)

lemma nodeAppendRange_Inr:
  assumes "nodeAppendRange b old d s n = Inr r" "n \<noteq> 0"
  obtains onk nnk r1 dstBegin srcBegin r2 "begin" "end" pos src where
    "nkeys old = Inr onk" "s + n \<le> onk" "nkeys b = Inr nnk" "d + n \<le> nnk"
    "copyPtrs (unat n) b old d s n 0 = Inr r1"
    "getOffset r1 d = Inr dstBegin" "getOffset old s = Inr srcBegin"
    "copyOffsets (unat n) r1 old d s n dstBegin srcBegin 1 = Inr r2"
    "kvPos old s = Inr begin" "kvPos old (s + n) = Inr end" "kvPos r2 d = Inr pos"
    "slice old (unat begin) (unat end) = Inr src" "copy_at r2 (unat pos) src = Inr r"
  using assms by (auto simp: nodeAppendRange_def rbind_eq_Inr)

lemma nodeAppendRange_length:
  assumes "nodeAppendRange b old d s n = Inr r"
  shows "length r = length b"
proof (cases "n = 0")
  case True
  then show ?thesis using assms nodeAppendRange_0 by blast
next
  case False
  from assms False obtain onk nnk r1 dstBegin srcBegin r2 "begin" "end" pos src where
    "nkeys old = Inr onk" "s + n \<le> onk" "nkeys b = Inr nnk" "d + n \<le> nnk"
    "copyPtrs (unat n) b old d s n 0 = Inr r1"
    "getOffset r1 d = Inr dstBegin" "getOffset old s = Inr srcBegin"
    "copyOffsets (unat n) r1 old d s n dstBegin srcBegin 1 = Inr r2"
    "kvPos old s = Inr begin" "kvPos old (s + n) = Inr end" "kvPos r2 d = Inr pos"
    "slice old (unat begin) (unat end) = Inr src" "copy_at r2 (unat pos) src = Inr r"
    by (rule nodeAppendRange_Inr)
  then show ?thesis
    using copyPtrs_length copyOffsets_length copy_at_length by metis
qed

lemma nodeAppendRange_in_range:
  assumes "nodeAppendRange b old d s n = Inr r" "w < n"
  shows "unat (HEADER + 8 * (d + w)) + 8 \<le> length b"
proof -
  have "n \<noteq> 0" using assms(2) by auto
  with assms(1) obtain onk nnk r1 dstBegin srcBegin r2 "begin" "end" pos src where
    "nkeys old = Inr onk" "s + n \<le> onk" "nkeys b = Inr nnk" "d + n \<le> nnk"
    and cp: "copyPtrs (unat n) b old d s n 0 = Inr r1"
    and "getOffset r1 d = Inr dstBegin" "getOffset old s = Inr srcBegin"
    "copyOffsets (unat n) r1 old d s n dstBegin srcBegin 1 = Inr r2"
    "kvPos old s = Inr begin" "kvPos old (s + n) = Inr end" "kvPos r2 d = Inr pos"
    "slice old (unat begin) (unat end) = Inr src" "copy_at r2 (unat pos) src = Inr r"
    by (rule nodeAppendRange_Inr)
  show ?thesis
    by (rule copyPtrs_in_range [OF cp _ _ assms(2)]) simp_all
qed

lemma kvPos_Inr:
  assumes "kvPos b idx = Inr pos"
  obtains nk off where "nkeys b = Inr nk" "idx \<le> nk" "getOffset b idx = Inr off"
    "pos = HEADER + 8 * nk + 2 * nk + off"
  using assms by (auto simp: kvPos_def rbind_eq_Inr)

lemma nodeAppendRange_header:
  assumes run: "nodeAppendRange b old d s n = Inr r"
    and nk: "nkeys b = Inr nk" "unat nk \<le> 511" and dn: "unat d + unat n \<le> 511"
    and off: "getOffset b d = Inr off" "unat off \<le> 8192"
  shows "take 4 r = take 4 b"
proof (cases "n = 0")
  case True
  then show ?thesis using run nodeAppendRange_0 by blast
next
  case False
  from run False obtain r1 r2 dstBegin srcBegin pos src where
    cp: "copyPtrs (unat n) b old d s n 0 = Inr r1"
    and co: "copyOffsets (unat n) r1 old d s n dstBegin srcBegin 1 = Inr r2"
    and kp: "kvPos r2 d = Inr pos"
    and cpy: "copy_at r2 (unat pos) src = Inr r"
    by (rule nodeAppendRange_Inr)
  note f1 = copyPtrs_frame [OF cp nk]
  note l1 = copyPtrs_length [OF cp]
  have nk1: "nkeys r1 = Inr nk"
    using hdr_cong(1) [OF l1] f1 nk by simp
  have f2: "take (4 + 8 * unat nk + 2 * unat d) r2 = take (4 + 8 * unat nk + 2 * unat d) r1"
    using copyOffsets_frame [OF co nk1 nk(2) dn] by simp
  note l2 = copyOffsets_length [OF co]
  have t2: "take 4 r2 = take 4 r1"
    by (rule take_eq_le [OF f2]) simp
  have nk2: "nkeys r2 = Inr nk"
    using hdr_cong(1) [OF l2 t2] nk1 by simp
  have "getOffset r2 d = getOffset r1 d"
    by (rule getOffset_take_cong [OF l2 f2 nk1 nk(2)]) simp
  also have "\<dots> = getOffset b d"
    using f1 by (intro getOffset_drop_cong [OF l1 _ _ nk]) simp_all
  finally have "getOffset r2 d = Inr off"
    using off by simp
  with kp nk2 have "pos = HEADER + 8 * nk + 2 * nk + off"
    by (auto elim!: kvPos_Inr)
  then have "unat pos = 4 + 10 * unat nk + unat off"
    using kv_pos [OF nk(2) off(2)] by simp
  then have "take 4 r = take 4 r2"
    by (intro copy_at_take [OF cpy]) simp
  then show ?thesis
    using t2 f1 by simp
qed

lemma nodeAppendRange_first_offset:
  assumes run: "nodeAppendRange b old 0 0 n = Inr r" and "n \<noteq> 0"
    and nk: "nkeys b = Inr nk" "unat nk \<le> 511"
  shows "\<exists>off. getOffset r n = Inr off \<and> unat off \<le> length old"
proof -
  from run \<open>n \<noteq> 0\<close> obtain onk nnk r1 dstBegin srcBegin r2 "begin" "end" pos src where
    "nkeys old = Inr onk" "0 + n \<le> onk"
    and le: "nkeys b = Inr nnk" "0 + n \<le> nnk"
    and cp: "copyPtrs (unat n) b old 0 0 n 0 = Inr r1"
    and db: "getOffset r1 0 = Inr dstBegin" and sb: "getOffset old 0 = Inr srcBegin"
    and co: "copyOffsets (unat n) r1 old 0 0 n dstBegin srcBegin 1 = Inr r2"
    and kb: "kvPos old 0 = Inr begin" and ke: "kvPos old (0 + n) = Inr end"
    and kp: "kvPos r2 0 = Inr pos"
    and sl: "slice old (unat begin) (unat end) = Inr src"
    and cpy: "copy_at r2 (unat pos) src = Inr r"
    by (rule nodeAppendRange_Inr)
  have n_le: "unat n \<le> unat nk"
    using le nk by (simp add: word_le_nat_alt)
  have zero: "dstBegin = 0" "srcBegin = 0"
    using db sb by (simp_all add: getOffset_def)
  note f1 = copyPtrs_frame [OF cp nk]
  note l1 = copyPtrs_length [OF cp]
  have nk1: "nkeys r1 = Inr nk"
    using hdr_cong(1) [OF l1] f1 nk by simp
  have one: "1 \<le> n"
    using \<open>n \<noteq> 0\<close> by (simp add: word_le_nat_alt unat_gt_0 Suc_leI)
  from copyOffsets_last [OF co nk1 nk(2) _ _ one] n_le nk(2)
  obtain off where go: "getOffset old n = Inr off" and g2: "getOffset r2 n = Inr off"
    by (auto simp: zero)
  have f2: "take (4 + 8 * unat nk) r2 = take (4 + 8 * unat nk) r1"
    using copyOffsets_frame [OF co nk1 nk(2)] n_le nk(2) by simp
  note l2 = copyOffsets_length [OF co]
  have nk2: "nkeys r2 = Inr nk"
    using hdr_cong(1) [OF l2 take_eq_le [OF f2]] nk1 by simp
  from kp nk2 have "pos = HEADER + 8 * nk + 2 * nk + 0"
    by (auto elim!: kvPos_Inr simp: getOffset_def)
  then have "unat pos = 4 + 10 * unat nk"
    using kv_pos [OF nk(2), of 0] by simp
  then have tk: "take (4 + 10 * unat nk) r = take (4 + 10 * unat nk) r2"
    by (intro copy_at_take [OF cpy]) simp
  have "4 + 8 * unat nk + 2 * unat n \<le> 4 + 10 * unat nk"
    using n_le by arith
  then have "getOffset r n = getOffset r2 n"
    by (rule getOffset_take_cong [OF copy_at_length [OF cpy] tk nk2 nk(2)])
  then have g: "getOffset r n = Inr off"
    using g2 by simp
  from kb obtain onk' where b: "begin = HEADER + 8 * onk' + 2 * onk' + 0" and ok: "nkeys old = Inr onk'"
    by (auto elim!: kvPos_Inr simp: getOffset_def)
  from ke ok go have e: "end = begin + off"
    by (auto elim!: kvPos_Inr simp: b)
  from sl have "unat begin \<le> unat end" "unat end \<le> length old"
    by (auto simp: slice_def split: if_splits)
  moreover have "unat off < 65536"
    using unsigned_less [of off, where 'a = nat] by simp
  then have "unat off \<le> unat end" if "unat begin \<le> unat end"
    using that unfolding e by (simp add: unat_plus_if' split: if_splits)
  ultimately show ?thesis
    using g by auto
qed

subsection \<open>\<open>nodeMerge\<close>\<close>

lemma setHeader_Inr:
  assumes "setHeader b bt nk = Inr b'"
  shows "length b' = length b" and "btype b' = Inr bt" and "nkeys b' = Inr nk"
proof -
  from assms have len: "4 \<le> length b"
    and b': "b' = b[0 := ucast bt, 1 := ucast (drop_bit 8 bt), 2 := ucast nk, 3 := ucast (drop_bit 8 nk)]"
    by (auto simp: setHeader_def rbind_eq_Inr PutUint16_Inr)
  from len have "b \<noteq> []" by auto
  with len show "length b' = length b" and "btype b' = Inr bt" and "nkeys b' = Inr nk"
    by (simp_all add: b' btype_def nkeys_def Uint16_def u16_bytes nth_list_update)
qed

text \<open>
  Claim C10. Whatever the kinds of \<open>left\<close> and \<open>right\<close>, a node that \<open>nodeMerge\<close> returns
  is marked internal (\<open>BNODE_NODE\<close>): the header it writes first survives the two
  \<open>nodeAppendRange\<close> calls. So two sibling leaves merge into a node marked internal, not
  leaf. The output buffer is a page, as \<open>nodeDelete\<close> allocates it, and \<open>left\<close> is no longer
  than the largest buffer of the program, two pages.
\<close>

theorem nodeMerge_kind_internal:
  assumes run: "nodeMerge new left right = Inr merged"
    and new: "length new \<le> BTREE_PAGE_SIZE"
    and left: "length left \<le> 2 * BTREE_PAGE_SIZE"
  shows "btype merged = Inr BNODE_NODE"
proof -
  from run obtain lnk rnk n0 n1 where
    lnk: "nkeys left = Inr lnk" and rnk: "nkeys right = Inr rnk"
    and hd: "setHeader new BNODE_NODE (lnk + rnk) = Inr n0"
    and c1: "nodeAppendRange n0 left 0 0 lnk = Inr n1"
    and c2: "nodeAppendRange n1 right lnk 0 rnk = Inr merged"
    by (auto simp: nodeMerge_def rbind_eq_Inr)
  note h0 = setHeader_Inr [OF hd]
  note len1 = nodeAppendRange_length [OF c1]
  have page: "length n0 \<le> 4096" "length n1 \<le> 4096"
    using new h0(1) len1 by (simp_all add: BTREE_PAGE_SIZE_def)
  have full: "unat (HEADER + 8 * (511 :: uint16)) + 8 = 4100"
    by (simp add: HEADER_def)
  have l511: "unat lnk \<le> 511"
  proof (rule ccontr)
    assume "\<not> unat lnk \<le> 511"
    then have "(511 :: uint16) < lnk"
      by (simp add: word_less_nat_alt)
    from nodeAppendRange_in_range [OF c1 this] page(1) full show False
      by simp
  qed
  have sum: "unat lnk + unat rnk \<le> 511"
  proof (rule ccontr)
    assume a: "\<not> unat lnk + unat rnk \<le> 511"
    define w :: uint16 where "w = of_nat (511 - unat lnk)"
    have uw: "unat w = 511 - unat lnk"
      unfolding w_def by (simp add: unat_of_nat)
    have "w < rnk"
      using a l511 uw by (simp add: word_less_nat_alt)
    moreover have "lnk + w = 511"
    proof -
      have "unat (lnk + w) = unat lnk + unat w"
        using l511 uw by (intro word_add_small) simp
      then have "unat (lnk + w) = unat (511 :: uint16)"
        using l511 uw by simp
      then show ?thesis
        by (simp only: word_unat_eq_iff)
    qed
    ultimately show False
      using nodeAppendRange_in_range [OF c2, of w] page(2) full by simp
  qed
  define nk where "nk = lnk + rnk"
  have unk: "unat nk = unat lnk + unat rnk"
    unfolding nk_def using sum by (intro word_add_small) simp
  then have nk511: "unat nk \<le> 511"
    using sum by simp
  have nk0: "nkeys n0 = Inr nk"
    using h0(3) by (simp add: nk_def)
  have t1: "take 4 n1 = take 4 n0"
    using l511 by (intro nodeAppendRange_header [OF c1 nk0 nk511, of 0]) (simp_all add: getOffset_def)
  have nk1: "nkeys n1 = Inr nk"
    using hdr_cong(1) [OF len1 t1] nk0 by simp
  have "\<exists>off. getOffset n1 lnk = Inr off \<and> unat off \<le> 8192"
  proof (cases "lnk = 0")
    case True
    then show ?thesis by (simp add: getOffset_def)
  next
    case False
    from nodeAppendRange_first_offset [OF c1 False nk0 nk511] left show ?thesis
      by (auto simp: BTREE_PAGE_SIZE_def)
  qed
  then obtain off where off: "getOffset n1 lnk = Inr off" "unat off \<le> 8192"
    by blast
  have t2: "take 4 merged = take 4 n1"
    by (rule nodeAppendRange_header [OF c2 nk1 nk511 sum off])
  have "btype merged = btype n0"
    using hdr_cong(2) [of merged n0] nodeAppendRange_length [OF c2] len1 t1 t2 by simp
  then show ?thesis
    using h0(2) by simp
qed

theorem nodeMerge_kind_internal_witness:
  "length (replicate BTREE_PAGE_SIZE (0 :: byte)) \<le> BTREE_PAGE_SIZE
   \<and> length ex_left \<le> 2 * BTREE_PAGE_SIZE
   \<and> btype ex_left = Inr BNODE_LEAF \<and> btype ex_right = Inr BNODE_LEAF
   \<and> (\<exists>merged. nodeMerge (replicate BTREE_PAGE_SIZE 0) ex_left ex_right = Inr merged
          \<and> btype merged = Inr BNODE_NODE)"
proof -
  have "\<exists>merged. nodeMerge (replicate BTREE_PAGE_SIZE 0) ex_left ex_right = Inr merged"
    by (simp add: btree_eval ex_left_def ex_right_def)
  then obtain merged where m: "nodeMerge (replicate BTREE_PAGE_SIZE 0) ex_left ex_right = Inr merged"
    by blast
  have "btype merged = Inr BNODE_NODE"
    by (rule nodeMerge_kind_internal [OF m]) (simp_all add: ex_left_def BTREE_PAGE_SIZE_def)
  with m show ?thesis
    by (auto simp: ex_left_def ex_right_def btype_def Uint16_def BNODE_LEAF_def BTREE_PAGE_SIZE_def)
qed

end
